(* ===== verification/Prelude.thy ===== *)
theory Prelude
  imports Main "HOL-Library.Sublist" "HOL-Library.Multiset" "HOL-Library.AList" "HOL-Library.Word"
begin

text \<open>
  Shared vocabulary of the development: the parts of Go's built-in types and standard
  library that several components use (maps, strings, decimal and hex printing, 64-bit
  wrap-around, saturating time differences), the generic lemmas about them, and the
  notion of a reachable state with its invariant rule.
\<close>

named_theorems go_map \<open>facts about the association lists that model Go maps\<close>
named_theorems go_string \<open>facts about the string functions of the standard library\<close>
named_theorems go_time \<open>the time constants, for evaluation\<close>

section \<open>Go maps\<close>

text \<open>
  A Go map is an association list. Writes go through \<^const>\<open>AList.update\<close> and
  \<^const>\<open>AList.delete\<close>, which keep the keys distinct when they are so at the start.
  The iteration order of \<open>range\<close> over a map is unspecified in Go: a definition that
  iterates takes the enumeration as a parameter.
\<close>

type_synonym ('k, 'v) gomap = "('k \<times> 'v) list"

abbreviation wf_map :: "('k, 'v) gomap \<Rightarrow> bool" where
  "wf_map m \<equiv> distinct (map fst m)"

text \<open>\<open>m[k]\<close> on a \<open>map[K]int\<close>: a missing key reads as the zero value.\<close>

definition at0 :: "('k, int) gomap \<Rightarrow> 'k \<Rightarrow> int" where
  "at0 m k = (case map_of m k of None \<Rightarrow> 0 | Some n \<Rightarrow> n)"

text \<open>\<open>m[k] += d\<close> on a \<open>map[K]int\<close>.\<close>

definition add_at :: "('k, int) gomap \<Rightarrow> 'k \<Rightarrow> int \<Rightarrow> ('k, int) gomap" where
  "add_at m k d = AList.update k (at0 m k + d) m"

lemma at0_Nil [simp]: "at0 [] k = 0"
  by (simp add: at0_def)

lemma at0_add_at [go_map]: "at0 (add_at m k d) k' = at0 m k' + (if k' = k then d else 0)"
  by (simp add: at0_def add_at_def update_conv')

lemma wf_map_add_at [simp, intro]: "wf_map m \<Longrightarrow> wf_map (add_at m k d)"
  by (simp add: add_at_def distinct_update)

lemma keys_add_at [go_map]: "fst ` set (add_at m k d) = insert k (fst ` set m)"
proof -
  have "dom (map_of (add_at m k d)) = insert k (dom (map_of m))"
    by (simp add: add_at_def update_conv')
  then show ?thesis by (simp add: dom_map_of_conv_image_fst)
qed

lemma at0_eq_of_mem: "wf_map m \<Longrightarrow> (k, n) \<in> set m \<Longrightarrow> at0 m k = n"
  by (simp add: at0_def)

text \<open>A wrapped enumeration of a map visits each entry exactly once.\<close>

lemma mset_eq_wf_map:
  assumes "mset xs = mset m" and "wf_map m"
  shows "wf_map xs"
proof -
  have "mset (map fst xs) = mset (map fst m)" using assms(1) by simp
  then show ?thesis using assms(2) by (metis mset_eq_imp_distinct_iff)
qed

lemma mset_eq_map_of:
  assumes "mset xs = mset m" and "wf_map m"
  shows "map_of xs = map_of m"
proof -
  have "set xs = set m" using assms(1) by (rule mset_eq_setD)
  then show ?thesis using assms mset_eq_wf_map[OF assms] by (simp add: map_of_inject_set)
qed

section \<open>Lists\<close>

lemma length_filter_delete:
  "length (filter P (AList.delete k m)) \<le> length (filter P m)"
  by (induction m) auto

lemma delete_eq_filter: "AList.delete k m = filter (\<lambda>kv. fst kv \<noteq> k) m"
  by (induction m) auto

lemma length_filter_filter_le: "length (filter P (filter Q xs)) \<le> length (filter P xs)"
  by (induction xs) auto

text \<open>The first element that satisfies a predicate: the search loops of the code.\<close>

lemma find_Some_mem: "find P xs = Some x \<Longrightarrow> x \<in> set xs \<and> P x"
  by (induction xs) (auto split: if_splits)

lemma find_None_all: "find P xs = None \<longleftrightarrow> (\<forall>x \<in> set xs. \<not> P x)"
  by (induction xs) auto

lemma find_distinct_key:
  assumes "distinct (map f xs)" and "x \<in> set xs"
  shows "find (\<lambda>y. f y = f x) xs = Some x"
  using assms by (induction xs) (auto simp: rev_image_eqI)

section \<open>Strings\<close>

text \<open>
  A Go string is a sequence of bytes; \<^typ>\<open>string\<close> is a list of bytes too.
  \<open>contains\<close> is \<open>strings.Contains\<close>.
\<close>

fun contains :: "string \<Rightarrow> string \<Rightarrow> bool" where
  "contains [] sub = (sub = [])"
| "contains (c # s) sub = (prefix sub (c # s) \<or> contains s sub)"

lemma contains_sublist: "contains s sub = sublist sub s"
  by (induction s) (auto simp: sublist_Cons_right)

lemma contains_append [go_string]: "contains (u @ sub @ v) sub"
  by (simp add: contains_sublist)

lemma contains_iff: "contains s sub \<longleftrightarrow> (\<exists>u v. s = u @ sub @ v)"
  by (auto simp: contains_sublist sublist_def)

text \<open>
  \<open>strings.ReplaceAll\<close> for a non-empty \<open>old\<close> (the only use in the code): the leftmost
  occurrences, without overlap. An empty \<open>old\<close> is outside the model and changes nothing.
\<close>

function replace_all :: "string \<Rightarrow> string \<Rightarrow> string \<Rightarrow> string" where
  "replace_all s old new =
     (case s of
        [] \<Rightarrow> []
      | c # s' \<Rightarrow>
          if old \<noteq> [] \<and> prefix old s then new @ replace_all (drop (length old) s) old new
          else c # replace_all s' old new)"
  by pat_completeness auto
termination
  by (relation "measure (\<lambda>(s, old, new). length s)") auto

declare replace_all.simps [simp del]

lemma replace_all_Nil [simp]: "replace_all [] old new = []"
  by (simp add: replace_all.simps)

lemma replace_all_Cons:
  "replace_all (c # s) old new =
     (if old \<noteq> [] \<and> prefix old (c # s) then new @ replace_all (drop (length old) (c # s)) old new
      else c # replace_all s old new)"
  by (subst replace_all.simps) simp

text \<open>\<open>strings.Join\<close>.\<close>

fun join :: "string list \<Rightarrow> string \<Rightarrow> string" where
  "join [] sep = []"
| "join [x] sep = x"
| "join (x # y # ys) sep = x @ sep @ join (y # ys) sep"

text \<open>\<open>strings.TrimRight(s, cutset)\<close> for a one-byte cut set.\<close>

definition trim_right :: "string \<Rightarrow> char \<Rightarrow> string" where
  "trim_right s c = rev (dropWhile (\<lambda>x. x = c) (rev s))"

lemma trim_right_last: "trim_right s c \<noteq> [] \<Longrightarrow> last (trim_right s c) \<noteq> c"
  by (metis (mono_tags, lifting) hd_dropWhile last_rev rev_is_Nil_conv trim_right_def)

text \<open>
  \<open>strings.ToLower\<close>, as far as a comparison with an ASCII word can tell. ASCII letters are
  lowered. Of the non-ASCII runes exactly two have an ASCII lower case: the Kelvin sign
  (bytes E2 84 AA, to \<open>k\<close>) and the capital I with dot (bytes C4 B0, to \<open>i\<close>). Every other
  rune keeps a non-ASCII byte, which no ASCII word contains.
\<close>

definition lower_char :: "char \<Rightarrow> char" where
  "lower_char c =
     (case map_of (zip ''ABCDEFGHIJKLMNOPQRSTUVWXYZ'' ''abcdefghijklmnopqrstuvwxyz'') c of
        None \<Rightarrow> c | Some d \<Rightarrow> d)"

fun to_lower :: "string \<Rightarrow> string" where
  "to_lower [] = []"
| "to_lower (c # s) =
     (if prefix [CHR 0xE2, CHR 0x84, CHR 0xAA] (c # s) then CHR ''k'' # to_lower (drop 2 s)
      else if prefix [CHR 0xC4, CHR 0xB0] (c # s) then CHR ''i'' # to_lower (drop 1 s)
      else lower_char c # to_lower s)"

text \<open>Case folding as \<open>(?i)\<close> in \<open>regexp\<close> does it: the Kelvin sign folds to \<open>k\<close> and the long s
  (bytes C5 BF) to \<open>s\<close>.\<close>

fun fold_case :: "string \<Rightarrow> string" where
  "fold_case [] = []"
| "fold_case (c # s) =
     (if prefix [CHR 0xE2, CHR 0x84, CHR 0xAA] (c # s) then CHR ''k'' # fold_case (drop 2 s)
      else if prefix [CHR 0xC5, CHR 0xBF] (c # s) then CHR ''s'' # fold_case (drop 1 s)
      else lower_char c # fold_case s)"

section \<open>Printing numbers\<close>

definition digit :: "nat \<Rightarrow> char" where
  "digit d = ''0123456789abcdef'' ! d"

text \<open>The verb \<open>%d\<close>.\<close>

fun show_nat :: "nat \<Rightarrow> string" where
  "show_nat n = (if n < 10 then [digit n] else show_nat (n div 10) @ [digit (n mod 10)])"

declare show_nat.simps [simp del]

definition show_int :: "int \<Rightarrow> string" where
  "show_int i = (if i < 0 then CHR ''-'' # show_nat (nat (- i)) else show_nat (nat i))"

text \<open>\<open>hex.EncodeToString\<close>: two digits per byte.\<close>

definition hex_byte :: "8 word \<Rightarrow> string" where
  "hex_byte b = [digit (unat b div 16), digit (unat b mod 16)]"

definition hex_encode :: "8 word list \<Rightarrow> string" where
  "hex_encode bs = concat (map hex_byte bs)"

lemma digit_inj: "i < 16 \<Longrightarrow> j < 16 \<Longrightarrow> digit i = digit j \<Longrightarrow> i = j"
proof -
  have "distinct ''0123456789abcdef''" by simp
  moreover assume "i < 16" and "j < 16" and "digit i = digit j"
  ultimately show "i = j"
    unfolding digit_def by (subst (asm) nth_eq_iff_index_eq) simp_all
qed

lemma digit_neq_dash: "i < 16 \<Longrightarrow> CHR ''-'' \<noteq> digit i"
proof -
  assume "i < 16"
  then have "digit i \<in> set ''0123456789abcdef''"
    unfolding digit_def by (intro nth_mem) simp
  then show ?thesis by auto
qed

text \<open>Reading a decimal numeral back, to state that printing loses nothing.\<close>

definition digit_val :: "char \<Rightarrow> nat" where
  "digit_val c = (case map_of (zip ''0123456789'' [0..<10]) c of None \<Rightarrow> 0 | Some d \<Rightarrow> d)"

definition read_nat :: "string \<Rightarrow> nat" where
  "read_nat s = foldl (\<lambda>a c. 10 * a + digit_val c) 0 s"

lemma digit_val_digit: "d < 10 \<Longrightarrow> digit_val (digit d) = d"
proof -
  assume "d < 10"
  then have "d \<in> set [0..<10]" by simp
  then show ?thesis by (auto simp: digit_val_def digit_def upt_rec)
qed

lemma read_show_nat [go_string]: "read_nat (show_nat n) = n"
proof (induction n rule: show_nat.induct)
  case (1 n)
  show ?case
  proof (cases "n < 10")
    case True
    then show ?thesis by (simp add: show_nat.simps[of n] read_nat_def digit_val_digit)
  next
    case False
    then show ?thesis
      using 1 by (subst show_nat.simps) (simp add: read_nat_def digit_val_digit)
  qed
qed

lemma show_nat_inj: "show_nat m = show_nat n \<Longrightarrow> m = n"
  by (metis read_show_nat)

lemma show_nat_no_dash: "CHR ''-'' \<notin> set (show_nat n)"
proof (induction n rule: show_nat.induct)
  case (1 n)
  show ?case
  proof (cases "n < 10")
    case True
    then show ?thesis using digit_neq_dash[of n] by (simp add: show_nat.simps[of n])
  next
    case False
    have "n mod 10 < 16" using mod_less_divisor[of 10 n] by linarith
    then show ?thesis
      using 1 False digit_neq_dash[of "n mod 10"] by (subst show_nat.simps) auto
  qed
qed

lemma show_nat_not_Nil: "show_nat n \<noteq> []"
  by (subst show_nat.simps) simp

lemma show_int_inj: "show_int i = show_int j \<Longrightarrow> i = j"
  by (auto simp: show_int_def dest!: show_nat_inj split: if_splits)
    (metis list.set_intros(1) show_nat_no_dash)+

lemma hex_byte_inj: "hex_byte a = hex_byte b \<Longrightarrow> a = b"
proof -
  have b: "unat x div 16 < 16" "unat x mod 16 < 16" for x :: "8 word"
    using unsigned_less[of x, where 'a = nat] by auto
  assume "hex_byte a = hex_byte b"
  then have "unat a div 16 = unat b div 16" and "unat a mod 16 = unat b mod 16"
    by (auto simp: hex_byte_def intro: digit_inj b)
  then have "unat a = unat b" by (metis div_mult_mod_eq)
  then show "a = b" by (rule unsigned_word_eqI)
qed

lemma hex_encode_inj: "length as = length bs \<Longrightarrow> hex_encode as = hex_encode bs \<Longrightarrow> as = bs"
proof (induction as bs rule: list_induct2)
  case Nil
  then show ?case by simp
next
  case (Cons a as b bs)
  from Cons.prems have "hex_byte a = hex_byte b" and "hex_encode as = hex_encode bs"
    by (auto simp: hex_encode_def hex_byte_def)
  then show ?case using Cons.IH hex_byte_inj by simp
qed

lemma hex_encode_no_dash: "CHR ''-'' \<notin> set (hex_encode bs)"
proof -
  have "CHR ''-'' \<notin> set (hex_byte b)" for b
  proof -
    have "unat b div 16 < 16" "unat b mod 16 < 16"
      using unsigned_less[of b, where 'a = nat] by auto
    then show ?thesis
      using digit_neq_dash[of "unat b div 16"] digit_neq_dash[of "unat b mod 16"]
      by (simp add: hex_byte_def)
  qed
  then show ?thesis by (auto simp: hex_encode_def)
qed

section \<open>Machine integers and time\<close>

text \<open>Signed 64-bit wrap-around, for the arithmetic on \<open>time.Duration\<close> that can overflow.\<close>

definition wrap64 :: "int \<Rightarrow> int" where
  "wrap64 x = (x + 2 ^ 63) mod 2 ^ 64 - 2 ^ 63"

lemma wrap64_id: "- (2 ^ 63) \<le> x \<Longrightarrow> x < 2 ^ 63 \<Longrightarrow> wrap64 x = x"
  by (simp add: wrap64_def)

lemma wrap64_range: "- (2 ^ 63) \<le> wrap64 x \<and> wrap64 x < 2 ^ 63"
  by (simp add: wrap64_def)

text \<open>\<open>time.Time.Sub\<close> saturates at the ends of \<open>time.Duration\<close>. Instants are integers, in
  nanoseconds.\<close>

definition time_sub :: "int \<Rightarrow> int \<Rightarrow> int" where
  "time_sub a b = max (- (2 ^ 63)) (min (2 ^ 63 - 1) (a - b))"

lemma time_sub_gt: "d < 2 ^ 63 - 1 \<Longrightarrow> - (2 ^ 63) \<le> d \<Longrightarrow> d < time_sub a b \<longleftrightarrow> d < a - b"
  by (auto simp: time_sub_def)

definition second :: int where
  "second = 1000000000"

definition minute :: int where
  "minute = 60 * second"

lemmas [go_time] = second_def minute_def

section \<open>Reachable states\<close>

text \<open>
  The least set of states that holds the initial ones and is closed under the steps, and
  the rule every component with a step relation uses for its invariant.
\<close>

inductive reachable :: "('s \<Rightarrow> bool) \<Rightarrow> ('s \<Rightarrow> 's \<Rightarrow> bool) \<Rightarrow> 's \<Rightarrow> bool"
  for init step where
  reach_init: "init s \<Longrightarrow> reachable init step s"
| reach_step: "reachable init step s \<Longrightarrow> step s t \<Longrightarrow> reachable init step t"

locale invariant_system =
  fixes init :: "'s \<Rightarrow> bool"
    and step :: "'s \<Rightarrow> 's \<Rightarrow> bool"
    and inv :: "'s \<Rightarrow> bool"
  assumes init_inv: "init s \<Longrightarrow> inv s"
    and step_inv: "inv s \<Longrightarrow> step s t \<Longrightarrow> inv t"
begin

lemma reachable_inv: "reachable init step s \<Longrightarrow> inv s"
proof (induction rule: reachable.induct)
  case (reach_init s)
  then show ?case by (rule init_inv)
next
  case (reach_step s t)
  then show ?case by (blast intro: step_inv)
qed

lemma reachable_step_inv: "reachable init step s \<Longrightarrow> step s t \<Longrightarrow> inv s \<and> inv t"
  by (blast intro: reachable_inv reach_step)

end

section \<open>Polling loops\<close>

text \<open>
  A loop that repeats a round until it returns: \<open>Inl r\<close> leaves the loop with \<open>r\<close>, \<open>Inr ()\<close>
  goes on. Nothing bounds the number of rounds, so the loop is a partial function and
  \<^const>\<open>None\<close> is a run that never returns; \<open>poll_n\<close> runs at most \<open>n\<close> rounds.
\<close>

partial_function (option) poll :: "('w \<Rightarrow> ('r + unit) \<times> 'w) \<Rightarrow> 'w \<Rightarrow> ('r \<times> 'w) option" where
  "poll step w =
     (case step w of (Inl r, w1) \<Rightarrow> Some (r, w1) | (Inr _, w1) \<Rightarrow> poll step w1)"

declare poll.simps [code]

fun poll_n :: "nat \<Rightarrow> ('w \<Rightarrow> ('r + unit) \<times> 'w) \<Rightarrow> 'w \<Rightarrow> ('r \<times> 'w) option" where
  "poll_n 0 step w = None"
| "poll_n (Suc n) step w =
     (case step w of (Inl r, w1) \<Rightarrow> Some (r, w1) | (Inr _, w1) \<Rightarrow> poll_n n step w1)"

lemma poll_n_poll: "poll_n n step w = Some x \<Longrightarrow> poll step w = Some x"
proof (induction n arbitrary: w)
  case (Suc n)
  then show ?case by (subst poll.simps) (auto split: prod.splits sum.splits)
qed simp

text \<open>What is kept by every round that goes on holds at the start of the last one.\<close>

lemma poll_last:
  assumes ret: "poll step w = Some (r, w')" and I: "I w"
    and keep: "\<And>w w1. I w \<Longrightarrow> step w = (Inr (), w1) \<Longrightarrow> I w1"
  shows "\<exists>w0. I w0 \<and> step w0 = (Inl r, w')"
proof -
  let ?P = "\<lambda>s w x. s = step \<longrightarrow> I w \<longrightarrow> (\<exists>w0. I w0 \<and> step w0 = (Inl (fst x), snd x))"
  have "?P step w (r, w')"
  proof (rule poll.raw_induct[where P = ?P, OF _ ret])
    fix f s w x
    assume IH: "\<And>s w x. f s w = Some x \<Longrightarrow> ?P s w x"
      and eq: "(case s w of (Inl r, w1) \<Rightarrow> Some (r, w1) | (Inr _, w1) \<Rightarrow> f s w1) = Some x"
    show "?P s w x"
      using IH eq keep by (auto split: prod.splits sum.splits)
  qed
  with I show ?thesis by simp
qed

text \<open>A loop whose rounds go on only before a deadline, and then take at least \<open>d\<close>, returns, and
  the number of its rounds is bounded.\<close>

lemma poll_n_returns:
  fixes clk :: "'w \<Rightarrow> int"
  assumes d: "0 < d"
    and progress: "\<And>w w1. step w = (Inr (), w1) \<Longrightarrow> clk w \<le> deadline \<and> clk w + d \<le> clk w1"
    and fuel: "deadline - clk w < int n * d"
  shows "\<exists>x. poll_n (Suc n) step w = Some x"
  using fuel
proof (induction n arbitrary: w)
  case 0
  then show ?case using progress[of w] by (auto split: prod.splits sum.splits)
next
  case (Suc n)
  show ?case
  proof (cases "step w")
    case (Pair r w1)
    show ?thesis
    proof (cases r)
      case (Inl a)
      with Pair show ?thesis by simp
    next
      case (Inr u)
      with Pair progress[of w w1] have "clk w + d \<le> clk w1" by simp
      then have "deadline - clk w1 < int n * d" using Suc.prems by (simp add: algebra_simps)
      then show ?thesis using Suc.IH[of w1] Pair Inr by simp
    qed
  qed
qed

end
