(* ===== verification/Types.thy ===== *)
theory Types
  imports Prelude
begin

text \<open>
  The data of \<open>internal/kamatera/types.go\<close>: the create request, the lifecycle status of an
  asynchronous command with its two predicates, the entries of the queue list, and the
  projection of a server. Also the fields of the Kubernetes objects that the controller
  reads (\<open>corev1.Pod\<close> and \<open>corev1.Node\<close> of \<open>k8s.io/api\<close>).
\<close>

section \<open>Kamatera\<close>

record create_server_request =
  req_Name :: string
  req_Password :: string
  req_PasswordValidate :: string
  req_SSHKey :: string
  req_Datacenter :: string
  req_Image :: string
  req_CPU :: string
  req_RAM :: int
  req_Disk :: string
  req_DailyBackup :: string
  req_Managed :: string
  req_Network :: string
  req_Quantity :: int
  req_BillingCycle :: string
  req_MonthlyPackage :: string
  req_PowerOn :: string
  req_ScriptFile :: string

text \<open>
  \<open>CommandStatus\<close> is a string type: the API may answer any word, and the constants name
  the known ones.
\<close>

type_synonym command_status = string

definition StatusInitializing :: command_status where "StatusInitializing = ''initializing''"
definition StatusProgress :: command_status where "StatusProgress = ''progress''"
definition StatusStarted :: command_status where "StatusStarted = ''started''"
definition StatusComplete :: command_status where "StatusComplete = ''complete''"
definition StatusError :: command_status where "StatusError = ''error''"
definition StatusCancelled :: command_status where "StatusCancelled = ''cancelled''"

lemmas status_defs = StatusInitializing_def StatusProgress_def StatusStarted_def
  StatusComplete_def StatusError_def StatusCancelled_def

definition IsTerminal :: "command_status \<Rightarrow> bool" where
  "IsTerminal s = (s = StatusComplete \<or> s = StatusError \<or> s = StatusCancelled)"

definition IsFailure :: "command_status \<Rightarrow> bool" where
  "IsFailure s = (s = StatusError \<or> s = StatusCancelled)"

lemma failure_is_terminal: "IsFailure s \<Longrightarrow> IsTerminal s"
  by (auto simp: IsFailure_def IsTerminal_def)

lemma terminal_success_iff: "IsTerminal s \<and> \<not> IsFailure s \<longleftrightarrow> s = StatusComplete"
  by (auto simp: IsFailure_def IsTerminal_def status_defs)

text \<open>\<open>ID\<close> is a \<open>json.Number\<close>, kept as its literal text.\<close>

record queue_status =
  qs_ID :: string
  qs_Status :: command_status
  qs_Server :: string
  qs_Description :: string
  qs_Added :: string
  qs_Executed :: string
  qs_Completed :: string
  qs_Log :: string

definition zero_queue_status :: queue_status where
  "zero_queue_status = \<lparr>qs_ID = [], qs_Status = [], qs_Server = [], qs_Description = [],
     qs_Added = [], qs_Executed = [], qs_Completed = [], qs_Log = []\<rparr>"

record server =
  srv_ID :: string
  srv_Name :: string
  srv_Power :: string
  srv_Datacenter :: string

definition zero_server :: server where
  "zero_server = \<lparr>srv_ID = [], srv_Name = [], srv_Power = [], srv_Datacenter = []\<rparr>"

section \<open>Kubernetes\<close>

type_synonym labels = "(string, string) gomap"

record pod_condition =
  cond_Type :: string
  cond_Status :: string
  cond_Reason :: string
  cond_Message :: string

text \<open>
  Of a pod the controller reads its names, its phase and conditions, its node selector,
  the kinds of its owners, its annotations and whether a deletion timestamp is set.
\<close>

record pod =
  pod_Name :: string
  pod_Namespace :: string
  pod_NodeSelector :: labels
  pod_Phase :: string
  pod_Conditions :: "pod_condition list"
  pod_OwnerKinds :: "string list"
  pod_Annotations :: labels
  pod_DeletionTimestamp :: "int option"

text \<open>A node whose creation timestamp is the zero time has \<open>None\<close>.\<close>

record node =
  node_Name :: string
  node_Labels :: labels
  node_Created :: "int option"

end
