(* ===== verification/Errors.thy ===== *)
theory Errors
  imports Types
begin

text \<open>
  Go errors as values, and the classification of \<open>internal/kamatera/errors.go\<close>.
  An \<open>error\<close> result is a \<open>goerr option\<close> (\<^const>\<open>None\<close> is \<open>nil\<close>), a pair \<open>(T, error)\<close> of
  which one half is meaningful is a sum \<open>goerr + T\<close>.
\<close>

section \<open>Error values\<close>

text \<open>
  \<open>Errorf\<close> and \<open>Wrapf\<close> keep the format and the arguments of \<open>fmt.Errorf\<close> instead of the
  text they print; \<open>Wrapf\<close> is the one with the verb \<open>%w\<close> and holds the wrapped error.
  \<open>External\<close> is an error of code outside the repository.
\<close>

datatype garg = AStr string | AInt int

datatype goerr =
    APIError string string int string
  | ServerNotFoundError string
  | ErrServerNotFound
  | ErrCreateRecovered server
  | ContextCanceled
  | ContextDeadlineExceeded
  | ErrorString string
  | Errorf string "garg list"
  | Wrapf string "garg list" goerr
  | External string

text \<open>\<open>errors.As\<close> for a \<open>*APIError\<close>: the first one in the chain of wrapped errors, as its
  method, path, code and body.\<close>

fun as_APIError :: "goerr \<Rightarrow> (string \<times> string \<times> int \<times> string) option" where
  "as_APIError (APIError m p c b) = Some (m, p, c, b)"
| "as_APIError (Wrapf f a e) = as_APIError e"
| "as_APIError e = None"

text \<open>\<open>errors.As\<close> for a \<open>*ErrCreateRecovered\<close>.\<close>

fun as_ErrCreateRecovered :: "goerr \<Rightarrow> server option" where
  "as_ErrCreateRecovered (ErrCreateRecovered s) = Some s"
| "as_ErrCreateRecovered (Wrapf f a e) = as_ErrCreateRecovered e"
| "as_ErrCreateRecovered e = None"

text \<open>\<open>(*ServerNotFoundError).Is\<close>, and \<open>errors.Is(err, ErrServerNotFound)\<close>, which also
  accepts the sentinel itself.\<close>

definition ServerNotFoundError_Is :: "goerr \<Rightarrow> bool" where
  "ServerNotFoundError_Is target = (target = ErrServerNotFound)"

fun is_ErrServerNotFound :: "goerr \<Rightarrow> bool" where
  "is_ErrServerNotFound ErrServerNotFound = True"
| "is_ErrServerNotFound (ServerNotFoundError n) = ServerNotFoundError_Is ErrServerNotFound"
| "is_ErrServerNotFound (Wrapf f a e) = is_ErrServerNotFound e"
| "is_ErrServerNotFound e = False"

section \<open>Classification\<close>

definition truncate_str :: "string \<Rightarrow> nat \<Rightarrow> string" where
  "truncate_str s n = (if length s \<le> n then s else take n s @ ''...'')"

lemma length_truncate_str: "length (truncate_str s n) \<le> n + 3"
  by (simp add: truncate_str_def)

text \<open>\<open>(*APIError).Error\<close>, \<open>Client\<close> and \<open>Server\<close>.\<close>

definition APIError_Error :: "string \<Rightarrow> string \<Rightarrow> int \<Rightarrow> string \<Rightarrow> string" where
  "APIError_Error m p c b =
     ''kamatera: '' @ m @ '' '' @ p @ '': HTTP '' @ show_int c @ '': '' @ truncate_str b 400"

definition APIError_Client :: "int \<Rightarrow> bool" where
  "APIError_Client code = (code \<ge> 400 \<and> code < 500)"

definition APIError_Server :: "int \<Rightarrow> bool" where
  "APIError_Server code = (code \<ge> 500)"

definition IsClientError :: "goerr option \<Rightarrow> bool" where
  "IsClientError err =
     (case err of None \<Rightarrow> False
      | Some e \<Rightarrow> (case as_APIError e of None \<Rightarrow> False | Some (m, p, c, b) \<Rightarrow> APIError_Client c))"

definition IsServerError :: "goerr option \<Rightarrow> bool" where
  "IsServerError err =
     (case err of None \<Rightarrow> False
      | Some e \<Rightarrow> (case as_APIError e of None \<Rightarrow> False | Some (m, p, c, b) \<Rightarrow> APIError_Server c))"

definition IsTransportError :: "goerr option \<Rightarrow> bool" where
  "IsTransportError err =
     (case err of None \<Rightarrow> False | Some e \<Rightarrow> as_APIError e = None)"

lemmas class_defs = IsClientError_def IsServerError_def IsTransportError_def
  APIError_Client_def APIError_Server_def

text \<open>
  The interface the callers of the classification rely on: \<open>nil\<close> is in no class, no error
  is in two, and wrapping with \<open>%w\<close> keeps the class.
\<close>

locale error_classes =
  fixes client server transport :: "goerr option \<Rightarrow> bool"
  assumes nil_client: "\<not> client None"
    and nil_server: "\<not> server None"
    and nil_transport: "\<not> transport None"
    and client_server: "client err \<Longrightarrow> \<not> server err"
    and client_transport: "client err \<Longrightarrow> \<not> transport err"
    and server_transport: "server err \<Longrightarrow> \<not> transport err"
    and wrap_client: "client (Some (Wrapf f a e)) = client (Some e)"
    and wrap_server: "server (Some (Wrapf f a e)) = server (Some e)"
    and wrap_transport: "transport (Some (Wrapf f a e)) = transport (Some e)"
begin

text \<open>A whole chain of wrappings keeps the class.\<close>

lemma chain_transport:
  "transport (Some (foldr (\<lambda>(f, a). Wrapf f a) ws e)) = transport (Some e)"
  by (induction ws) (auto simp: wrap_transport)

lemma chain_client: "client (Some (foldr (\<lambda>(f, a). Wrapf f a) ws e)) = client (Some e)"
  by (induction ws) (auto simp: wrap_client)

lemma chain_server: "server (Some (foldr (\<lambda>(f, a). Wrapf f a) ws e)) = server (Some e)"
  by (induction ws) (auto simp: wrap_server)

text \<open>At most one class answers yes.\<close>

lemma at_most_one: "length (filter (\<lambda>p. p err) [client, server, transport]) \<le> 1"
  using client_server client_transport server_transport by auto

end

interpretation ec: error_classes IsClientError IsServerError IsTransportError
  by unfold_locales (auto simp: class_defs split: option.splits prod.splits)

lemma transport_cases: "IsTransportError (Some e) \<or> (\<exists>m p c b. as_APIError e = Some (m, p, c, b))"
  by (cases "as_APIError e") (auto simp: IsTransportError_def)

lemma not_found_is_transport: "is_ErrServerNotFound e \<Longrightarrow> IsTransportError (Some e)"
  by (induction e) (auto simp: class_defs)

section \<open>The runtime\<close>

text \<open>
  What the code asks of its environment besides the two APIs: the wall clock
  (\<open>time.Now\<close>, in nanoseconds; reading it may let time pass), a wait that a cancelled
  context cuts short (\<open>select\<close> on \<open>ctx.Done()\<close> and \<open>time.After(d)\<close>; the result is the
  error of the context, or \<^const>\<open>None\<close> when the interval elapsed), and \<open>ctx.Err()\<close>. The
  type \<open>'w\<close> is the state of everything outside the program.
\<close>

record 'w runtime =
  rt_now :: "'w \<Rightarrow> int \<times> 'w"
  rt_wait :: "int \<Rightarrow> 'w \<Rightarrow> goerr option \<times> 'w"
  rt_ctx_err :: "'w \<Rightarrow> goerr option"

text \<open>
  What the loops with a deadline need of the world to stop: a true time \<open>clk\<close> of which
  \<open>time.Now\<close> reads a value between the call and the return, a wait that is not cancelled and
  takes at least as long as asked, and calls during which time does not run backwards.
\<close>

definition clock_progress :: "('w \<Rightarrow> int) \<Rightarrow> ('w, 'z) runtime_scheme \<Rightarrow> bool" where
  "clock_progress clk rt =
     ((\<forall>w. clk w \<le> fst (rt_now rt w) \<and> fst (rt_now rt w) \<le> clk (snd (rt_now rt w)))
      \<and> (\<forall>d w. fst (rt_wait rt d w) = None \<longrightarrow> clk w + d \<le> clk (snd (rt_wait rt d w))))"

definition keeps_time :: "('w \<Rightarrow> int) \<Rightarrow> ('w \<Rightarrow> 'a \<times> 'w) \<Rightarrow> bool" where
  "keeps_time clk f = (\<forall>w. clk w \<le> clk (snd (f w)))"

lemma clock_progress_now:
  "clock_progress clk rt \<Longrightarrow> rt_now rt w = (t, w1) \<Longrightarrow> clk w \<le> t \<and> t \<le> clk w1"
  unfolding clock_progress_def by (metis fst_conv snd_conv)

lemma clock_progress_wait:
  "clock_progress clk rt \<Longrightarrow> rt_wait rt d w = (None, w1) \<Longrightarrow> clk w + d \<le> clk w1"
  unfolding clock_progress_def by (metis fst_conv snd_conv)

lemma keeps_timeD: "keeps_time clk f \<Longrightarrow> f w = (r, w1) \<Longrightarrow> clk w \<le> clk w1"
  unfolding keeps_time_def by (metis snd_conv)

end
