(* ===== verification/Config.thy ===== *)
theory Config
  imports Errors
begin

text \<open>
  \<open>internal/config\<close>: the configuration and its pools (\<open>config.go\<close>), the validation that
  also parses every pool's selector, the lookup by name, the credentials that come from
  the environment only, and the scan that refuses credentials in the YAML
  (\<open>reserved.go\<close>). The YAML decoder, the label-selector parser, the template parser and
  the file system are parameters.
\<close>

section \<open>Data\<close>

text \<open>A \<open>labels.Selector\<close> is used through its method \<open>Matches\<close> only, a parsed template
  through \<open>Execute\<close> only: each is the function that method computes.\<close>

type_synonym selector = "labels \<Rightarrow> bool"

record cloud_init_vars =
  ci_ServerIP :: string
  ci_JoinToken :: string
  ci_NodeLabels :: string
  ci_NodeTaints :: string

type_synonym template = "cloud_init_vars \<Rightarrow> goerr + string"

record pool =
  pool_Name :: string
  pool_CPUType :: string
  pool_CPUCores :: int
  pool_RAMMB :: int
  pool_DiskGB :: int
  pool_Image :: string
  pool_MinNodes :: int
  pool_MaxNodes :: int
  pool_NodeLabels :: string
  pool_NodeTaints :: string
  pool_PodSelector :: string
  pool_parsedSelector :: "selector option"

record credentials =
  cred_ClientID :: string
  cred_Secret :: string
  cred_JoinToken :: string
  cred_SSHPubKey :: string

record config =
  cfg_Datacenter :: string
  cfg_VLANName :: string
  cfg_ServerIP :: string
  cfg_CloudInitTemplatePath :: string
  cfg_Pools :: "pool list"
  cfg_CloudInit :: "template option"
  cfg_Creds :: credentials

text \<open>\<open>(*Pool).Selector\<close> and the accessors and printers of \<open>Credentials\<close>.\<close>

definition Selector :: "pool \<Rightarrow> selector option" where
  "Selector p = pool_parsedSelector p"

definition KamateraClientID :: "credentials \<Rightarrow> string" where "KamateraClientID c = cred_ClientID c"
definition KamateraSecret :: "credentials \<Rightarrow> string" where "KamateraSecret c = cred_Secret c"
definition JoinToken :: "credentials \<Rightarrow> string" where "JoinToken c = cred_JoinToken c"
definition SSHPubKey :: "credentials \<Rightarrow> string" where "SSHPubKey c = cred_SSHPubKey c"
definition Credentials_String :: "credentials \<Rightarrow> string" where "Credentials_String c = ''<redacted>''"
definition Credentials_GoString :: "credentials \<Rightarrow> string" where "Credentials_GoString c = ''<redacted>''"

section \<open>Validation\<close>

definition isValidCPUType :: "string \<Rightarrow> bool" where
  "isValidCPUType t = (t = ''A'' \<or> t = ''B'' \<or> t = ''D'' \<or> t = ''T'')"

text \<open>One round of the loop of \<open>Validate\<close>: the checks on pool \<open>i\<close> in their order, given
  the names seen before it; the result is the pool with its selector filled in.\<close>

definition validate_pool ::
  "(string \<Rightarrow> goerr + selector) \<Rightarrow> nat \<Rightarrow> string list \<Rightarrow> pool \<Rightarrow> goerr + pool" where
  "validate_pool parse i seen p =
     (if pool_Name p = [] then
        Inl (Errorf ''pool[%d]: name is required'' [AInt (int i)])
      else if pool_Name p \<in> set seen then
        Inl (Errorf ''duplicate pool name %q'' [AStr (pool_Name p)])
      else if \<not> isValidCPUType (pool_CPUType p) then
        Inl (Errorf ''pool %q: cpu_type must be one of A, B, D, T (got %q)''
               [AStr (pool_Name p), AStr (pool_CPUType p)])
      else if pool_CPUCores p \<le> 0 then
        Inl (Errorf ''pool %q: cpu_cores must be > 0'' [AStr (pool_Name p)])
      else if pool_RAMMB p \<le> 0 then
        Inl (Errorf ''pool %q: ram_mb must be > 0'' [AStr (pool_Name p)])
      else if pool_DiskGB p \<le> 0 then
        Inl (Errorf ''pool %q: disk_gb must be > 0'' [AStr (pool_Name p)])
      else if pool_Image p = [] then
        Inl (Errorf ''pool %q: image is required'' [AStr (pool_Name p)])
      else if pool_MinNodes p < 0 then
        Inl (Errorf ''pool %q: min_nodes must be >= 0'' [AStr (pool_Name p)])
      else if pool_MaxNodes p < pool_MinNodes p then
        Inl (Errorf ''pool %q: max_nodes (%d) must be >= min_nodes (%d)''
               [AStr (pool_Name p), AInt (pool_MaxNodes p), AInt (pool_MinNodes p)])
      else if pool_PodSelector p = [] then
        Inl (Errorf ''pool %q: pod_selector is required'' [AStr (pool_Name p)])
      else
        (case parse (pool_PodSelector p) of
           Inl e \<Rightarrow> Inl (Wrapf ''pool %q: pod_selector %q is not a valid label selector: %w''
                      [AStr (pool_Name p), AStr (pool_PodSelector p)] e)
         | Inr sel \<Rightarrow> Inr (p\<lparr>pool_parsedSelector := Some sel\<rparr>)))"

text \<open>The loop writes the selectors into \<open>c.Pools\<close> as it goes, so the pools before a
  rejected one are already updated when it returns the error.\<close>

fun validate_pools ::
  "(string \<Rightarrow> goerr + selector) \<Rightarrow> nat \<Rightarrow> string list \<Rightarrow> pool list \<Rightarrow> goerr option \<times> pool list" where
  "validate_pools parse i seen [] = (None, [])"
| "validate_pools parse i seen (p # ps) =
     (case validate_pool parse i seen p of
        Inl e \<Rightarrow> (Some e, p # ps)
      | Inr p' \<Rightarrow>
          (case validate_pools parse (Suc i) (pool_Name p # seen) ps of
             (err, ps') \<Rightarrow> (err, p' # ps')))"

definition Validate :: "(string \<Rightarrow> goerr + selector) \<Rightarrow> config \<Rightarrow> goerr option \<times> config" where
  "Validate parse c =
     (if cfg_Datacenter c = [] then (Some (ErrorString ''datacenter is required''), c)
      else if cfg_CloudInitTemplatePath c = [] then
        (Some (ErrorString ''cloud_init_template is required''), c)
      else if cfg_Pools c = [] then
        (Some (ErrorString ''at least one pool is required''), c)
      else
        (case validate_pools parse 0 [] (cfg_Pools c) of
           (err, ps) \<Rightarrow> (err, c\<lparr>cfg_Pools := ps\<rparr>)))"

definition PoolByName :: "config \<Rightarrow> string \<Rightarrow> pool option" where
  "PoolByName c name = find (\<lambda>p. pool_Name p = name) (cfg_Pools c)"

subsection \<open>What validation promises\<close>

text \<open>The promise is stated without the loop: what a pool and a list of pools must satisfy.\<close>

definition valid_pool :: "(string \<Rightarrow> goerr + selector) \<Rightarrow> pool \<Rightarrow> bool" where
  "valid_pool parse p =
     (pool_Name p \<noteq> [] \<and> isValidCPUType (pool_CPUType p) \<and> 0 < pool_CPUCores p \<and> 0 < pool_RAMMB p
      \<and> 0 < pool_DiskGB p \<and> pool_Image p \<noteq> [] \<and> 0 \<le> pool_MinNodes p
      \<and> pool_MinNodes p \<le> pool_MaxNodes p \<and> pool_PodSelector p \<noteq> []
      \<and> \<not> isl (parse (pool_PodSelector p)))"

definition valid_config :: "(string \<Rightarrow> goerr + selector) \<Rightarrow> config \<Rightarrow> bool" where
  "valid_config parse c =
     (cfg_Datacenter c \<noteq> [] \<and> cfg_CloudInitTemplatePath c \<noteq> [] \<and> cfg_Pools c \<noteq> []
      \<and> distinct (map pool_Name (cfg_Pools c)) \<and> list_all (valid_pool parse) (cfg_Pools c))"

definition with_selector :: "(string \<Rightarrow> goerr + selector) \<Rightarrow> pool \<Rightarrow> pool" where
  "with_selector parse p =
     p\<lparr>pool_parsedSelector := (case parse (pool_PodSelector p) of Inl e \<Rightarrow> None | Inr s \<Rightarrow> Some s)\<rparr>"

lemma with_selector_name [simp]: "pool_Name (with_selector parse p) = pool_Name p"
  by (simp add: with_selector_def)

lemma validate_pool_cases:
  "validate_pool parse i seen p =
     (if valid_pool parse p \<and> pool_Name p \<notin> set seen then Inr (with_selector parse p)
      else Inl (projl (validate_pool parse i seen p)))"
  by (auto simp: validate_pool_def valid_pool_def with_selector_def split: sum.splits)

lemma validate_pool_ok:
  "(validate_pool parse i seen p = Inr p') =
     (valid_pool parse p \<and> pool_Name p \<notin> set seen \<and> p' = with_selector parse p)"
  by (subst validate_pool_cases) auto

lemma validate_pool_err:
  "(\<exists>e. validate_pool parse i seen p = Inl e) = (\<not> valid_pool parse p \<or> pool_Name p \<in> set seen)"
  by (subst validate_pool_cases) auto

lemma validate_pools_ok:
  "validate_pools parse i seen ps = (None, ps') \<longleftrightarrow>
     list_all (valid_pool parse) ps \<and> distinct (map pool_Name ps)
     \<and> set (map pool_Name ps) \<inter> set seen = {} \<and> ps' = map (with_selector parse) ps"
proof (induction ps arbitrary: i seen ps')
  case Nil
  then show ?case by auto
next
  case (Cons p ps)
  show ?case
  proof (cases "validate_pool parse i seen p")
    case (Inl e)
    then have "\<not> valid_pool parse p \<or> pool_Name p \<in> set seen"
      using validate_pool_err by metis
    with Inl show ?thesis by auto
  next
    case (Inr q)
    then have q: "valid_pool parse p" "pool_Name p \<notin> set seen" "q = with_selector parse p"
      by (simp_all add: validate_pool_ok)
    obtain err qs where r: "validate_pools parse (Suc i) (pool_Name p # seen) ps = (err, qs)"
      by fastforce
    show ?thesis
      using Inr q r Cons.IH[of "Suc i" "pool_Name p # seen" qs] Cons.IH[of "Suc i" "pool_Name p # seen" "tl ps'"]
      by (cases ps') auto
  qed
qed

lemma validate_pools_names: "map pool_Name (snd (validate_pools parse i seen ps)) = map pool_Name ps"
  by (induction ps arbitrary: i seen)
    (auto simp: validate_pool_ok split: sum.splits prod.splits, metis snd_conv)

text \<open>Where the loop stops, and what it leaves behind.\<close>

lemma validate_pools_error:
  "validate_pools parse i seen ps = (Some e, qs) \<Longrightarrow>
     \<exists>k < length ps. list_all (valid_pool parse) (take k ps) \<and> distinct (map pool_Name (take k ps))
        \<and> set (map pool_Name (take k ps)) \<inter> set seen = {}
        \<and> validate_pool parse (i + k) (rev (map pool_Name (take k ps)) @ seen) (ps ! k) = Inl e
        \<and> qs = map (with_selector parse) (take k ps) @ drop k ps"
proof (induction ps arbitrary: i seen qs)
  case Nil
  then show ?case by simp
next
  case (Cons p ps)
  show ?case
  proof (cases "validate_pool parse i seen p")
    case (Inl e')
    with Cons.prems show ?thesis by (intro exI[of _ 0]) auto
  next
    case (Inr q)
    then have q: "valid_pool parse p" "pool_Name p \<notin> set seen" "q = with_selector parse p"
      by (simp_all add: validate_pool_ok)
    obtain qs' where r: "validate_pools parse (Suc i) (pool_Name p # seen) ps = (Some e, qs')"
      and qs: "qs = q # qs'"
      using Cons.prems Inr by (auto split: prod.splits)
    from Cons.IH[OF r] obtain k where "k < length ps" "list_all (valid_pool parse) (take k ps)"
      "distinct (map pool_Name (take k ps))" "set (map pool_Name (take k ps)) \<inter> set (pool_Name p # seen) = {}"
      "validate_pool parse (Suc i + k) (rev (map pool_Name (take k ps)) @ pool_Name p # seen) (ps ! k) = Inl e"
      "qs' = map (with_selector parse) (take k ps) @ drop k ps"
      by blast
    then show ?thesis using q qs by (intro exI[of _ "Suc k"]) auto
  qed
qed

lemma validate_ok_iff:
  "Validate parse c = (None, c') \<longleftrightarrow>
     valid_config parse c \<and> c' = c\<lparr>cfg_Pools := map (with_selector parse) (cfg_Pools c)\<rparr>"
proof (cases "validate_pools parse 0 [] (cfg_Pools c)")
  case (Pair err qs)
  let ?ps = "map (with_selector parse) (cfg_Pools c)"
  have "(err = None \<and> qs = ?ps) \<longleftrightarrow>
      list_all (valid_pool parse) (cfg_Pools c) \<and> distinct (map pool_Name (cfg_Pools c))"
    using validate_pools_ok[of parse 0 "[]" "cfg_Pools c" ?ps] Pair by simp
  moreover have "err = None \<longrightarrow> qs = ?ps"
    using validate_pools_ok[of parse 0 "[]" "cfg_Pools c" qs] Pair by simp
  ultimately show ?thesis
    using Pair by (auto simp: Validate_def valid_config_def)
qed

lemma valid_config_with_selectors:
  assumes "valid_config parse c" and "p \<in> set (map (with_selector parse) (cfg_Pools c))"
  shows "\<exists>sel. parse (pool_PodSelector p) = Inr sel \<and> Selector p = Some sel"
proof -
  from assms(2) obtain q where q: "q \<in> set (cfg_Pools c)" "p = with_selector parse q" by auto
  with assms(1) have "\<not> isl (parse (pool_PodSelector q))"
    by (auto simp: valid_config_def list_all_iff valid_pool_def)
  with q show ?thesis
    by (cases "parse (pool_PodSelector q)") (auto simp: with_selector_def Selector_def)
qed

section \<open>Pools by name\<close>

text \<open>
  What the controller relies on when it looks a pool up: an answer has the name asked for
  and is a configured pool, and where the names are distinct every configured pool is
  found under its own name.
\<close>

locale pool_directory =
  fixes lookup :: "'d \<Rightarrow> string \<Rightarrow> 'p option"
    and pools :: "'d \<Rightarrow> 'p list"
    and name :: "'p \<Rightarrow> string"
  assumes lookup_sound: "lookup d n = Some p \<Longrightarrow> p \<in> set (pools d) \<and> name p = n"
    and lookup_complete: "distinct (map name (pools d)) \<Longrightarrow> p \<in> set (pools d) \<Longrightarrow> lookup d (name p) = Some p"
    and lookup_none: "lookup d n = None \<Longrightarrow> n \<notin> name ` set (pools d)"
begin

lemma lookup_name: "lookup d n = Some p \<Longrightarrow> name p = n"
  using lookup_sound by blast

lemma lookup_mem: "lookup d n = Some p \<Longrightarrow> p \<in> set (pools d)"
  using lookup_sound by blast

lemma lookup_none_iff: "lookup d n = None \<longleftrightarrow> n \<notin> name ` set (pools d)"
  using lookup_none lookup_sound by (cases "lookup d n") force+

lemma lookup_again: "lookup d n = Some p \<Longrightarrow> lookup d (name p) = Some p"
  using lookup_name by simp

lemma lookup_inj: "lookup d m = Some p \<Longrightarrow> lookup d n = Some p \<Longrightarrow> m = n"
  using lookup_name by blast

lemma lookup_eq_iff:
  "distinct (map name (pools d)) \<Longrightarrow> (lookup d n = Some p) = (p \<in> set (pools d) \<and> name p = n)"
  using lookup_sound lookup_complete by blast

end

interpretation pd: pool_directory PoolByName cfg_Pools pool_Name
proof unfold_locales
  fix d n p
  show "PoolByName d n = Some p \<Longrightarrow> p \<in> set (cfg_Pools d) \<and> pool_Name p = n"
    by (auto simp: PoolByName_def dest: find_Some_mem)
  show "distinct (map pool_Name (cfg_Pools d)) \<Longrightarrow> p \<in> set (cfg_Pools d)
      \<Longrightarrow> PoolByName d (pool_Name p) = Some p"
    by (simp add: PoolByName_def find_distinct_key)
  show "PoolByName d n = None \<Longrightarrow> n \<notin> pool_Name ` set (cfg_Pools d)"
    by (auto simp: PoolByName_def find_None_all)
qed

section \<open>Reserved fields\<close>

definition reservedFields :: "string list" where
  "reservedFields =
     [''kamatera_client_id'', ''kamatera_secret'', ''api_client_id'', ''api_secret'',
      ''join_token'', ''k3s_token'', ''ssh_pub_key'', ''ssh_key'',
      ''creds'', ''credentials'', ''secrets'']"

definition isReservedKey :: "string \<Rightarrow> bool" where
  "isReservedKey k = list_ex (\<lambda>r. to_lower k = r) reservedFields"

text \<open>A \<open>yaml.Node\<close> as far as the scan looks at it.\<close>

datatype ynode_kind = DocumentNode | SequenceNode | MappingNode | ScalarNode | AliasNode

datatype ynode =
  YNode (y_Kind: ynode_kind) (y_Value: string) (y_Line: int) (y_Content: "ynode list")

definition reserved_error :: "ynode \<Rightarrow> goerr" where
  "reserved_error key =
     Errorf ''config: field %q is reserved and must come from environment, not YAML (line %d)''
       [AStr (y_Value key), AInt (y_Line key)]"

text \<open>
  \<open>walkForbiddenKeys\<close> with its two loops: over the children of a document or a sequence,
  and over the children of a mapping two at a time (key, value). A datatype has no nil
  pointer, so the source's test for one has no branch here.
\<close>

fun walkForbiddenKeys :: "ynode \<Rightarrow> goerr option"
  and walk_items :: "ynode list \<Rightarrow> goerr option"
  and walk_pairs :: "ynode list \<Rightarrow> goerr option" where
  "walkForbiddenKeys (YNode kind v l content) =
     (if kind = DocumentNode then walk_items content
      else if kind = MappingNode then walk_pairs content
      else if kind = SequenceNode then walk_items content
      else None)"
| "walk_items [] = None"
| "walk_items (c # cs) = (case walkForbiddenKeys c of Some e \<Rightarrow> Some e | None \<Rightarrow> walk_items cs)"
| "walk_pairs [] = None"
| "walk_pairs [key] =
     (if y_Kind key = ScalarNode \<and> isReservedKey (y_Value key) then Some (reserved_error key) else None)"
| "walk_pairs (key # val # rest) =
     (if y_Kind key = ScalarNode \<and> isReservedKey (y_Value key) then Some (reserved_error key)
      else (case walkForbiddenKeys val of Some e \<Rightarrow> Some e | None \<Rightarrow> walk_pairs rest))"

text \<open>\<open>rejectReservedFields\<close>, on the documents that the decoder yields before its first
  error (end of input or a syntax error: both end the loop without an error).\<close>

fun rejectReservedFields :: "ynode list \<Rightarrow> goerr option" where
  "rejectReservedFields [] = None"
| "rejectReservedFields (d # ds) =
     (case walkForbiddenKeys d of Some e \<Rightarrow> Some e | None \<Rightarrow> rejectReservedFields ds)"

text \<open>The mapping keys that the scan must look at: those of mappings reached through
  documents, sequences and mapping values.\<close>

inductive key_in :: "ynode \<Rightarrow> ynode \<Rightarrow> bool" where
  key_here: "y_Kind n = MappingNode \<Longrightarrow> even i \<Longrightarrow> i < length (y_Content n) \<Longrightarrow> key_in n (y_Content n ! i)"
| key_value: "y_Kind n = MappingNode \<Longrightarrow> odd i \<Longrightarrow> i < length (y_Content n) \<Longrightarrow>
     key_in (y_Content n ! i) k \<Longrightarrow> key_in n k"
| key_item: "y_Kind n = DocumentNode \<or> y_Kind n = SequenceNode \<Longrightarrow> c \<in> set (y_Content n) \<Longrightarrow>
     key_in c k \<Longrightarrow> key_in n k"

inductive_simps key_in_YNode: "key_in (YNode kind v l content) k"

definition reserved_key :: "ynode \<Rightarrow> bool" where
  "reserved_key k = (y_Kind k = ScalarNode \<and> isReservedKey (y_Value k))"

lemma reserved_key_error:
  "(y_Kind k = ScalarNode \<and> isReservedKey (y_Value k)) = reserved_key k"
  by (simp add: reserved_key_def)

text \<open>The keys of a mapping's children, read the way the loop reads them.\<close>

fun pair_key :: "ynode list \<Rightarrow> ynode \<Rightarrow> bool" where
  "pair_key [] k = False"
| "pair_key [key] k = (k = key)"
| "pair_key (key # val # rest) k = (k = key \<or> key_in val k \<or> pair_key rest k)"

lemma ex_even_step:
  "(\<exists>i < length (a # b # r). even i \<and> P ((a # b # r) ! i)) \<longleftrightarrow>
     P a \<or> (\<exists>i < length r. even i \<and> P (r ! i))" (is "?L = ?R")
proof
  assume ?L
  then obtain i where i: "i < length (a # b # r)" "even i" "P ((a # b # r) ! i)" by blast
  then have "i = 0 \<or> (\<exists>j. i = Suc (Suc j) \<and> even j)" by (cases i; cases "i - 1") auto
  with i show ?R by auto
next
  assume ?R
  then show ?L by (auto intro: exI[of _ 0]) (metis Suc_less_eq even_Suc_Suc_iff nth_Cons_Suc)
qed

lemma ex_odd_step:
  "(\<exists>i < length (a # b # r). odd i \<and> P ((a # b # r) ! i)) \<longleftrightarrow>
     P b \<or> (\<exists>i < length r. odd i \<and> P (r ! i))" (is "?L = ?R")
proof
  assume ?L
  then obtain i where i: "i < length (a # b # r)" "odd i" "P ((a # b # r) ! i)" by blast
  then have "i = 1 \<or> (\<exists>j. i = Suc (Suc j) \<and> odd j)" by (cases i; cases "i - 1") auto
  with i show ?R by auto
next
  assume ?R
  then show ?L by (auto intro: exI[of _ 1]) (metis Suc_less_eq even_Suc_Suc_iff nth_Cons_Suc)
qed

lemma pair_key_iff:
  "pair_key cs k \<longleftrightarrow>
     (\<exists>i < length cs. even i \<and> k = cs ! i) \<or> (\<exists>i < length cs. odd i \<and> key_in (cs ! i) k)"
proof (induction cs k rule: pair_key.induct)
  case (3 key val rest k)
  have "(\<exists>i < length (key # val # rest). even i \<and> k = (key # val # rest) ! i) \<longleftrightarrow>
      k = key \<or> (\<exists>i < length rest. even i \<and> k = rest ! i)"
    by (rule ex_even_step)
  moreover have "(\<exists>i < length (key # val # rest). odd i \<and> key_in ((key # val # rest) ! i) k) \<longleftrightarrow>
      key_in val k \<or> (\<exists>i < length rest. odd i \<and> key_in (rest ! i) k)"
    by (rule ex_odd_step)
  ultimately show ?case using 3 unfolding pair_key.simps by argo
qed auto

lemma key_in_mapping: "key_in (YNode MappingNode v l cs) k = pair_key cs k"
  by (auto simp: key_in_YNode pair_key_iff)

lemma key_in_items:
  "kind = DocumentNode \<or> kind = SequenceNode \<Longrightarrow>
     key_in (YNode kind v l cs) k = (\<exists>c \<in> set cs. key_in c k)"
  by (auto simp: key_in_YNode)

lemma key_in_leaf:
  "kind \<noteq> DocumentNode \<Longrightarrow> kind \<noteq> SequenceNode \<Longrightarrow> kind \<noteq> MappingNode \<Longrightarrow> \<not> key_in (YNode kind v l cs) k"
  by (auto simp: key_in_YNode)

lemma walk_iff:
  "(walkForbiddenKeys n = None) = (\<not> (\<exists>k. key_in n k \<and> reserved_key k))"
  "(walk_items cs = None) = (\<not> (\<exists>k. (\<exists>c \<in> set cs. key_in c k) \<and> reserved_key k))"
  "(walk_pairs ps = None) = (\<not> (\<exists>k. pair_key ps k \<and> reserved_key k))"
proof (induction n and cs and ps rule: walkForbiddenKeys_walk_items_walk_pairs.induct)
  case (1 kind v l content)
  then show ?case
    by (cases kind) (auto simp: key_in_mapping key_in_items key_in_leaf)
next
  case (3 c cs)
  then show ?case by (cases "walkForbiddenKeys c") auto
next
  case (6 key val rest)
  then show ?case
    by (cases "reserved_key key"; cases "walkForbiddenKeys val") (auto simp: reserved_key_error)
qed (auto simp: reserved_key_def)

lemma rejectReservedFields_iff:
  "(rejectReservedFields ds = None) = (\<not> (\<exists>d \<in> set ds. \<exists>k. key_in d k \<and> reserved_key k))"
proof (induction ds)
  case (Cons d ds)
  then show ?case using walk_iff(1)[of d] by (cases "walkForbiddenKeys d") auto
qed simp

text \<open>An error names a key that is there.\<close>

lemma walk_error:
  "walkForbiddenKeys n = Some e \<Longrightarrow> \<exists>k. key_in n k \<and> reserved_key k \<and> e = reserved_error k"
  "walk_items cs = Some e \<Longrightarrow> \<exists>c \<in> set cs. \<exists>k. key_in c k \<and> reserved_key k \<and> e = reserved_error k"
  "walk_pairs ps = Some e \<Longrightarrow> \<exists>k. pair_key ps k \<and> reserved_key k \<and> e = reserved_error k"
proof (induction n and cs and ps rule: walkForbiddenKeys_walk_items_walk_pairs.induct)
  case (1 kind v l content)
  then show ?case
    by (cases kind) (auto simp: key_in_mapping key_in_items)
next
  case (3 c cs)
  then show ?case by (cases "walkForbiddenKeys c") auto
next
  case (5 key)
  then show ?case by (auto simp: reserved_key_def split: if_splits)
next
  case (6 key val rest)
  show ?case
  proof (cases "reserved_key key")
    case True
    then have "e = reserved_error key" using 6(3) by (simp add: reserved_key_error)
    then show ?thesis using True by auto
  next
    case False
    then show ?thesis
      using 6 by (cases "walkForbiddenKeys val") (auto simp: reserved_key_error)
  qed
qed auto

lemma rejectReservedFields_error:
  "rejectReservedFields ds = Some e \<Longrightarrow>
     \<exists>d \<in> set ds. \<exists>k. key_in d k \<and> reserved_key k \<and> e = reserved_error k"
proof (induction ds)
  case (Cons d ds)
  then show ?case using walk_error(1)[of d] by (cases "walkForbiddenKeys d") auto
qed simp

section \<open>Loading\<close>

text \<open>What \<open>Load\<close> calls outside the package: the file system, the YAML decoder (the stream
  of documents for the scan, and the strict decoding of the first document), the parser
  of label selectors and the parser of templates.\<close>

record loader =
  os_ReadFile :: "string \<Rightarrow> goerr + string"
  yaml_Documents :: "string \<Rightarrow> ynode list"
  yaml_DecodeStrict :: "string \<Rightarrow> goerr + config"
  labels_Parse :: "string \<Rightarrow> goerr + selector"
  template_Parse :: "string \<Rightarrow> goerr + template"

definition Load :: "loader \<Rightarrow> string \<Rightarrow> goerr + config" where
  "Load l path =
     (case os_ReadFile l path of
        Inl err \<Rightarrow> Inl (Wrapf ''read config %s: %w'' [AStr path] err)
      | Inr raw \<Rightarrow>
     (case rejectReservedFields (yaml_Documents l raw) of
        Some err \<Rightarrow> Inl err
      | None \<Rightarrow>
     (case yaml_DecodeStrict l raw of
        Inl err \<Rightarrow> Inl (Wrapf ''parse config: %w'' [] err)
      | Inr cfg0 \<Rightarrow>
     (case Validate (labels_Parse l) cfg0 of
        (Some err, _) \<Rightarrow> Inl (Wrapf ''validate config: %w'' [] err)
      | (None, cfg) \<Rightarrow>
     (case os_ReadFile l (cfg_CloudInitTemplatePath cfg) of
        Inl err \<Rightarrow> Inl (Wrapf ''read cloud-init template %s: %w''
                     [AStr (cfg_CloudInitTemplatePath cfg)] err)
      | Inr tmplBytes \<Rightarrow>
     (case template_Parse l tmplBytes of
        Inl err \<Rightarrow> Inl (Wrapf ''parse cloud-init template: %w'' [] err)
      | Inr tmpl \<Rightarrow> Inr (cfg\<lparr>cfg_CloudInit := Some tmpl\<rparr>)))))))"

lemma Load_Inr:
  assumes "Load l path = Inr cfg"
  obtains raw cfg0 tmplBytes tmpl where
    "os_ReadFile l path = Inr raw"
    "rejectReservedFields (yaml_Documents l raw) = None"
    "yaml_DecodeStrict l raw = Inr cfg0"
    "valid_config (labels_Parse l) cfg0"
    "os_ReadFile l (cfg_CloudInitTemplatePath cfg0) = Inr tmplBytes"
    "template_Parse l tmplBytes = Inr tmpl"
    "cfg = cfg0\<lparr>cfg_Pools := map (with_selector (labels_Parse l)) (cfg_Pools cfg0), cfg_CloudInit := Some tmpl\<rparr>"
  using assms
  by (auto simp: Load_def validate_ok_iff split: sum.splits option.splits prod.splits)

lemma Load_valid: "Load l path = Inr cfg \<Longrightarrow> valid_config (labels_Parse l) cfg"
  by (elim Load_Inr) (auto simp: valid_config_def list_all_iff valid_pool_def with_selector_def comp_def)

section \<open>Credentials\<close>

definition required_env :: "string list" where
  "required_env = [''KAMATERA_API_CLIENT_ID'', ''KAMATERA_API_SECRET'', ''AUTOSCALER_JOIN_TOKEN'', ''SSH_PUB_KEY'']"

text \<open>The loop over the map of required variables, in the order in which \<open>range\<close> happens
  to enumerate its keys.\<close>

fun load_required ::
  "(string \<Rightarrow> string) \<Rightarrow> string list \<Rightarrow> (string, string) gomap \<Rightarrow> goerr + (string, string) gomap" where
  "load_required getenv [] required = Inr required"
| "load_required getenv (k # ks) required =
     (let v = getenv k in
      if v = [] then Inl (Errorf ''required env var %s is empty'' [AStr k])
      else load_required getenv ks (AList.update k v required))"

definition lookup_str :: "(string, string) gomap \<Rightarrow> string \<Rightarrow> string" where
  "lookup_str m k = (case map_of m k of None \<Rightarrow> [] | Some v \<Rightarrow> v)"

definition LoadCredentials :: "(string \<Rightarrow> string) \<Rightarrow> string list \<Rightarrow> goerr + credentials" where
  "LoadCredentials getenv order =
     (case load_required getenv order (map (\<lambda>k. (k, [])) required_env) of
        Inl e \<Rightarrow> Inl e
      | Inr required \<Rightarrow>
          Inr \<lparr>cred_ClientID = lookup_str required ''KAMATERA_API_CLIENT_ID'',
               cred_Secret = lookup_str required ''KAMATERA_API_SECRET'',
               cred_JoinToken = lookup_str required ''AUTOSCALER_JOIN_TOKEN'',
               cred_SSHPubKey = lookup_str required ''SSH_PUB_KEY''\<rparr>)"

lemma load_required_ok:
  "load_required getenv ks m = Inr m' \<Longrightarrow>
     (\<forall>k \<in> set ks. getenv k \<noteq> []) \<and> map_of m' = (\<lambda>k. if k \<in> set ks then Some (getenv k) else map_of m k)"
proof (induction ks arbitrary: m)
  case (Cons k ks)
  then have v: "getenv k \<noteq> []" "load_required getenv ks (AList.update k (getenv k) m) = Inr m'"
    by (auto simp: Let_def split: if_splits)
  from Cons.IH[OF v(2)] v(1) show ?case by (auto simp: update_conv')
qed simp

lemma load_required_err:
  "load_required getenv ks m = Inl e \<Longrightarrow>
     \<exists>k \<in> set ks. getenv k = [] \<and> e = Errorf ''required env var %s is empty'' [AStr k]"
  by (induction ks arbitrary: m) (auto simp: Let_def split: if_splits)

text \<open>The credentials, whatever the order of the map.\<close>

lemma LoadCredentials_spec:
  assumes "mset order = mset required_env"
  shows "(case LoadCredentials getenv order of
      Inl e \<Rightarrow> \<exists>k \<in> set required_env. getenv k = [] \<and> e = Errorf ''required env var %s is empty'' [AStr k]
    | Inr cr \<Rightarrow> list_all (\<lambda>k. getenv k \<noteq> []) required_env
        \<and> cr = \<lparr>cred_ClientID = getenv ''KAMATERA_API_CLIENT_ID'', cred_Secret = getenv ''KAMATERA_API_SECRET'',
              cred_JoinToken = getenv ''AUTOSCALER_JOIN_TOKEN'', cred_SSHPubKey = getenv ''SSH_PUB_KEY''\<rparr>)"
proof -
  have set: "set order = set required_env" using assms by (rule mset_eq_setD)
  show ?thesis
  proof (cases "load_required getenv order (map (\<lambda>k. (k, [])) required_env)")
    case (Inl e)
    then show ?thesis using load_required_err[OF Inl] set by (simp add: LoadCredentials_def)
  next
    case (Inr m)
    have look: "lookup_str m k = getenv k" if "k \<in> set required_env" for k
      using load_required_ok[OF Inr] that set by (simp add: lookup_str_def)
    have "list_all (\<lambda>k. getenv k \<noteq> []) required_env"
      using load_required_ok[OF Inr] set by (simp add: list_all_iff)
    then show ?thesis using Inr look by (simp add: LoadCredentials_def required_env_def)
  qed
qed

end
