(* ===== verification/PoolMatch.thy ===== *)
theory PoolMatch
  imports Config
begin

text \<open>
  \<open>internal/controller/pool_match.go\<close>: which pods call for a new node, and which pool a
  pod or a node belongs to; and the two counting loops of \<open>scale_up.go\<close> built on them.
\<close>

section \<open>Matching\<close>

definition resource_message :: "string \<Rightarrow> bool" where
  "resource_message msg =
     (contains msg ''Insufficient cpu'' \<or> contains msg ''Insufficient memory''
      \<or> contains msg ''Insufficient ephemeral-storage'')"

definition condition_for_resources :: "pod_condition \<Rightarrow> bool" where
  "condition_for_resources c =
     (if cond_Type c \<noteq> ''PodScheduled'' \<or> cond_Status c \<noteq> ''False'' then False
      else if cond_Reason c \<noteq> ''Unschedulable'' then False
      else resource_message (cond_Message c))"

definition isPendingForResources :: "pod \<Rightarrow> bool" where
  "isPendingForResources p =
     (if pod_Phase p \<noteq> ''Pending'' then False
      else list_ex condition_for_resources (pod_Conditions p))"

definition selects :: "pool \<Rightarrow> labels \<Rightarrow> bool" where
  "selects pool ls = (case Selector pool of None \<Rightarrow> False | Some sel \<Rightarrow> sel ls)"

definition poolForPod :: "pod \<Rightarrow> config \<Rightarrow> pool option" where
  "poolForPod p cfg =
     (if pod_NodeSelector p = [] then None
      else find (\<lambda>pool. selects pool (pod_NodeSelector p)) (cfg_Pools cfg))"

definition poolForNode :: "node \<Rightarrow> config \<Rightarrow> pool option" where
  "poolForNode n cfg =
     (case map_of (node_Labels n) ''pool'' of
        None \<Rightarrow> None
      | Some name \<Rightarrow> if name = [] then None else PoolByName cfg name)"

lemma poolForPod_mem: "poolForPod p cfg = Some pool \<Longrightarrow> pool \<in> set (cfg_Pools cfg)"
  by (auto simp: poolForPod_def dest: find_Some_mem split: if_splits)

lemma poolForNode_label:
  "poolForNode n cfg = Some pool \<Longrightarrow> map_of (node_Labels n) ''pool'' = Some (pool_Name pool)"
  by (auto simp: poolForNode_def dest: pd.lookup_name split: option.splits if_splits)

section \<open>Counting\<close>

text \<open>A pod that calls for a node of a pool, and the name of that pool.\<close>

definition pending_pool :: "config \<Rightarrow> pod \<Rightarrow> string option" where
  "pending_pool cfg p =
     (if \<not> isPendingForResources p then None
      else (case poolForPod p cfg of None \<Rightarrow> None | Some pool \<Rightarrow> Some (pool_Name pool)))"

fun group_loop :: "config \<Rightarrow> pod list \<Rightarrow> (string, int) gomap \<Rightarrow> (string, int) gomap" where
  "group_loop cfg [] out = out"
| "group_loop cfg (p # ps) out =
     (case pending_pool cfg p of
        None \<Rightarrow> group_loop cfg ps out
      | Some name \<Rightarrow> group_loop cfg ps (add_at out name 1))"

definition groupPendingByPool :: "pod list \<Rightarrow> config \<Rightarrow> (string, int) gomap" where
  "groupPendingByPool pods cfg = group_loop cfg pods []"

fun count_loop :: "node list \<Rightarrow> (string, int) gomap \<Rightarrow> (string, int) gomap" where
  "count_loop [] out = out"
| "count_loop (n # ns) out =
     (case map_of (node_Labels n) ''pool'' of
        None \<Rightarrow> count_loop ns out
      | Some name \<Rightarrow> count_loop ns (add_at out name 1))"

definition countNodesByPool :: "node list \<Rightarrow> (string, int) gomap" where
  "countNodesByPool nodes = count_loop nodes []"

text \<open>Both loops count: the entry of a key is the number of elements that map to it.\<close>

definition pods_of :: "config \<Rightarrow> string \<Rightarrow> pod list \<Rightarrow> pod list" where
  "pods_of cfg name pods = filter (\<lambda>p. pending_pool cfg p = Some name) pods"

definition nodes_of :: "string \<Rightarrow> node list \<Rightarrow> node list" where
  "nodes_of name nodes = filter (\<lambda>n. map_of (node_Labels n) ''pool'' = Some name) nodes"

lemma group_loop_count:
  "at0 (group_loop cfg pods out) name = at0 out name + int (length (pods_of cfg name pods))"
  by (induction cfg pods out rule: group_loop.induct)
    (auto simp: pods_of_def at0_add_at split: option.splits)

lemma group_loop_wf: "wf_map out \<Longrightarrow> wf_map (group_loop cfg pods out)"
  by (induction cfg pods out rule: group_loop.induct) (auto split: option.splits)

lemma group_loop_keys:
  "fst ` set (group_loop cfg pods out) = fst ` set out \<union> {name. pods_of cfg name pods \<noteq> []}"
  by (induction cfg pods out rule: group_loop.induct)
    (auto simp: pods_of_def keys_add_at split: option.splits)

lemma count_loop_count:
  "at0 (count_loop nodes out) name = at0 out name + int (length (nodes_of name nodes))"
  by (induction nodes out rule: count_loop.induct)
    (auto simp: nodes_of_def at0_add_at split: option.splits)

lemma groupPendingByPool_count:
  "at0 (groupPendingByPool pods cfg) name = int (length (pods_of cfg name pods))"
  by (simp add: groupPendingByPool_def group_loop_count)

lemma groupPendingByPool_wf: "wf_map (groupPendingByPool pods cfg)"
  by (simp add: groupPendingByPool_def group_loop_wf)

lemma groupPendingByPool_keys:
  "fst ` set (groupPendingByPool pods cfg) = {name. pods_of cfg name pods \<noteq> []}"
  by (simp add: groupPendingByPool_def group_loop_keys)

lemma countNodesByPool_count:
  "at0 (countNodesByPool nodes) name = int (length (nodes_of name nodes))"
  by (simp add: countNodesByPool_def count_loop_count)

end
