(* ===== verification/Interfaces.thy ===== *)
theory Interfaces
  imports Errors
begin

text \<open>
  The interfaces through which the controller reaches its two APIs: \<open>PodLister\<close>,
  \<open>NodeLister\<close> and \<open>NodeMutator\<close> of \<open>internal/kubeclient/kubeclient.go\<close> and \<open>Client\<close> of
  \<open>internal/kamatera/client.go\<close>. A value of an interface type is a record of functions on
  the state of the world. The three Kamatera operations that poll or block until something
  happens elsewhere may never return: their result is optional, and \<^const>\<open>None\<close> is a call
  that does not return.
\<close>

record 'w pod_lister =
  ListPendingPods :: "'w \<Rightarrow> (goerr + pod list) \<times> 'w"
  ListPodsOnNode :: "string \<Rightarrow> 'w \<Rightarrow> (goerr + pod list) \<times> 'w"

record 'w node_lister =
  ListNodes :: "'w \<Rightarrow> (goerr + node list) \<times> 'w"

record 'w node_mutator =
  Cordon :: "string \<Rightarrow> 'w \<Rightarrow> goerr option \<times> 'w"
  Evict :: "pod \<Rightarrow> 'w \<Rightarrow> goerr option \<times> 'w"
  Delete :: "string \<Rightarrow> 'w \<Rightarrow> goerr option \<times> 'w"

record 'w kam_client =
  kam_CreateServer :: "create_server_request \<Rightarrow> 'w \<Rightarrow> ((goerr + string) \<times> 'w) option"
  kam_WaitProvision :: "string \<Rightarrow> string \<Rightarrow> int \<Rightarrow> 'w \<Rightarrow> ((goerr + server) \<times> 'w) option"
  kam_WaitTerminate :: "string \<Rightarrow> int \<Rightarrow> 'w \<Rightarrow> (goerr option \<times> 'w) option"
  kam_FindServerByName :: "string \<Rightarrow> 'w \<Rightarrow> (goerr + server) \<times> 'w"
  kam_TerminateServer :: "string \<Rightarrow> 'w \<Rightarrow> (goerr + string) \<times> 'w"

text \<open>The classification of API errors by \<open>k8s.io/apimachinery\<close>.\<close>

record api_errors =
  IsTooManyRequests :: "goerr \<Rightarrow> bool"
  IsNotFound :: "goerr \<Rightarrow> bool"

end
