(* ===== verification/Kubeclient.thy ===== *)
theory Kubeclient
  imports Interfaces
begin

text \<open>
  \<open>internal/kubeclient/kubeclient.go\<close>: how the client is configured, and the methods of
  \<open>Client\<close> that implement the three Kubernetes interfaces over client-go. The calls into
  client-go are the fields of \<open>kube_api\<close>.
\<close>

section \<open>Configuration\<close>

text \<open>What \<open>buildRestConfig\<close> asks of client-go and of the process environment; \<open>'r\<close> is
  \<open>*rest.Config\<close> and \<open>'k\<close> is \<open>kubernetes.Interface\<close>.\<close>

record ('r, 'k) rest_env =
  rest_InClusterConfig :: "goerr + 'r"
  env_KUBECONFIG :: string
  env_UserHomeDir :: string
  BuildConfigFromFlags :: "string \<Rightarrow> goerr + 'r"
  NewForConfig :: "'r \<Rightarrow> goerr + 'k"

text \<open>\<open>filepath.Join(home, ".kube", "config")\<close> for a home directory that is a clean path up
  to trailing slashes.\<close>

definition default_kubeconfig :: "string \<Rightarrow> string" where
  "default_kubeconfig home = trim_right home (CHR ''/'') @ ''/.kube/config''"

definition buildRestConfig :: "('r, 'k) rest_env \<Rightarrow> goerr + 'r" where
  "buildRestConfig env =
     (case rest_InClusterConfig env of
        Inr cfg \<Rightarrow> Inr cfg
      | Inl _ \<Rightarrow>
          (let path = env_KUBECONFIG env;
               path = (if path = [] \<and> env_UserHomeDir env \<noteq> []
                       then default_kubeconfig (env_UserHomeDir env) else path)
           in if path = [] then Inl (ErrorString ''no in-cluster config and no kubeconfig path'')
              else (case BuildConfigFromFlags env path of
                      Inl err \<Rightarrow> Inl (Wrapf ''kubeconfig %s: %w'' [AStr path] err)
                    | Inr cfg \<Rightarrow> Inr cfg)))"

definition NewInClusterOrKubeconfig :: "('r, 'k) rest_env \<Rightarrow> goerr + 'k" where
  "NewInClusterOrKubeconfig env =
     (case buildRestConfig env of
        Inl err \<Rightarrow> Inl err
      | Inr cfg \<Rightarrow> (case NewForConfig env cfg of
                     Inl err \<Rightarrow> Inl (Wrapf ''kubernetes.NewForConfig: %w'' [] err)
                   | Inr cs \<Rightarrow> Inr cs))"

lemma buildRestConfig_in_cluster: "rest_InClusterConfig env = Inr cfg \<Longrightarrow> buildRestConfig env = Inr cfg"
  by (simp add: buildRestConfig_def)

section \<open>The API calls\<close>

text \<open>
  \<open>api_ListPods ns fieldSelector\<close>, \<open>api_ListNodes\<close>, \<open>api_PatchNode name patchType patch\<close>,
  \<open>api_EvictV1 ns (name, namespace)\<close> and \<open>api_DeleteNode name\<close>.
\<close>

record 'w kube_api =
  api_ListPods :: "string \<Rightarrow> string \<Rightarrow> 'w \<Rightarrow> (goerr + pod list) \<times> 'w"
  api_ListNodes :: "'w \<Rightarrow> (goerr + node list) \<times> 'w"
  api_PatchNode :: "string \<Rightarrow> string \<Rightarrow> string \<Rightarrow> 'w \<Rightarrow> goerr option \<times> 'w"
  api_EvictV1 :: "string \<Rightarrow> string \<times> string \<Rightarrow> 'w \<Rightarrow> goerr option \<times> 'w"
  api_DeleteNode :: "string \<Rightarrow> 'w \<Rightarrow> goerr option \<times> 'w"

definition Client_ListPendingPods :: "'w kube_api \<Rightarrow> 'w \<Rightarrow> (goerr + pod list) \<times> 'w" where
  "Client_ListPendingPods K w =
     (case api_ListPods K [] ''status.phase=Pending'' w of
        (Inl err, w1) \<Rightarrow> (Inl (Wrapf ''list pending pods: %w'' [] err), w1)
      | (Inr items, w1) \<Rightarrow> (Inr items, w1))"

definition Client_ListPodsOnNode :: "'w kube_api \<Rightarrow> string \<Rightarrow> 'w \<Rightarrow> (goerr + pod list) \<times> 'w" where
  "Client_ListPodsOnNode K nodeName w =
     (case api_ListPods K [] (''spec.nodeName='' @ nodeName) w of
        (Inl err, w1) \<Rightarrow> (Inl (Wrapf ''list pods on node %s: %w'' [AStr nodeName] err), w1)
      | (Inr items, w1) \<Rightarrow> (Inr items, w1))"

definition Client_ListNodes :: "'w kube_api \<Rightarrow> 'w \<Rightarrow> (goerr + node list) \<times> 'w" where
  "Client_ListNodes K w =
     (case api_ListNodes K w of
        (Inl err, w1) \<Rightarrow> (Inl (Wrapf ''list nodes: %w'' [] err), w1)
      | (Inr items, w1) \<Rightarrow> (Inr items, w1))"

definition cordon_patch :: string where
  "cordon_patch = ''{\"spec\":{\"unschedulable\":true}}''"

definition Client_Cordon :: "'w kube_api \<Rightarrow> string \<Rightarrow> 'w \<Rightarrow> goerr option \<times> 'w" where
  "Client_Cordon K nodeName w =
     (case api_PatchNode K nodeName ''application/strategic-merge-patch+json'' cordon_patch w of
        (Some err, w1) \<Rightarrow> (Some (Wrapf ''cordon node %s: %w'' [AStr nodeName] err), w1)
      | (None, w1) \<Rightarrow> (None, w1))"

definition Client_Evict :: "'w kube_api \<Rightarrow> pod \<Rightarrow> 'w \<Rightarrow> goerr option \<times> 'w" where
  "Client_Evict K p w =
     (case api_EvictV1 K (pod_Namespace p) (pod_Name p, pod_Namespace p) w of
        (Some err, w1) \<Rightarrow>
          (Some (Wrapf ''evict pod %s/%s: %w'' [AStr (pod_Namespace p), AStr (pod_Name p)] err), w1)
      | (None, w1) \<Rightarrow> (None, w1))"

definition Client_Delete :: "'w kube_api \<Rightarrow> string \<Rightarrow> 'w \<Rightarrow> goerr option \<times> 'w" where
  "Client_Delete K nodeName w =
     (case api_DeleteNode K nodeName w of
        (Some err, w1) \<Rightarrow> (Some (Wrapf ''delete node %s: %w'' [AStr nodeName] err), w1)
      | (None, w1) \<Rightarrow> (None, w1))"

text \<open>\<open>Client\<close> as the three interfaces.\<close>

definition Client_as_PodLister :: "'w kube_api \<Rightarrow> 'w pod_lister" where
  "Client_as_PodLister K =
     \<lparr>ListPendingPods = Client_ListPendingPods K, ListPodsOnNode = Client_ListPodsOnNode K\<rparr>"

definition Client_as_NodeLister :: "'w kube_api \<Rightarrow> 'w node_lister" where
  "Client_as_NodeLister K = \<lparr>ListNodes = Client_ListNodes K\<rparr>"

definition Client_as_NodeMutator :: "'w kube_api \<Rightarrow> 'w node_mutator" where
  "Client_as_NodeMutator K =
     \<lparr>Cordon = Client_Cordon K, Evict = Client_Evict K, Delete = Client_Delete K\<rparr>"

lemmas client_defs = Client_ListPendingPods_def Client_ListPodsOnNode_def Client_ListNodes_def
  Client_Cordon_def Client_Evict_def Client_Delete_def

text \<open>Evicting through the client: the state is the one of the call, and the error, if any, is
  that call's, wrapped.\<close>

lemma Client_Evict_result:
  "Client_Evict K p w = (r, w') \<Longrightarrow>
     snd (api_EvictV1 K (pod_Namespace p) (pod_Name p, pod_Namespace p) w) = w'
     \<and> (\<forall>e. r = Some e \<longrightarrow>
          (\<exists>f a e0. e = Wrapf f a e0
             \<and> fst (api_EvictV1 K (pod_Namespace p) (pod_Name p, pod_Namespace p) w) = Some e0))"
  by (auto simp: Client_Evict_def split: prod.splits option.splits)

end
