(* ===== verification/Drain.thy ===== *)
theory Drain
  imports Interfaces
begin

text \<open>
  \<open>internal/controller/drain.go\<close>: cordon a node, then evict its pods until none is left to
  evict or the deadline passes. The loop has no bound of its own, so it is a partial
  function: \<^const>\<open>None\<close> is a run that never returns. That it returns is proved below from
  the progress of the clock.
\<close>

section \<open>Which pods\<close>

definition isDaemonSetPod :: "pod \<Rightarrow> bool" where
  "isDaemonSetPod p = list_ex (\<lambda>kind. kind = ''DaemonSet'') (pod_OwnerKinds p)"

definition isMirrorPod :: "pod \<Rightarrow> bool" where
  "isMirrorPod p = (map_of (pod_Annotations p) ''kubernetes.io/config.mirror'' \<noteq> None)"

fun filterEvictable :: "pod list \<Rightarrow> pod list" where
  "filterEvictable [] = []"
| "filterEvictable (p # ps) =
     (if isDaemonSetPod p \<or> isMirrorPod p then filterEvictable ps
      else if pod_DeletionTimestamp p \<noteq> None then filterEvictable ps
      else p # filterEvictable ps)"

definition evictable :: "pod \<Rightarrow> bool" where
  "evictable p = (\<not> isDaemonSetPod p \<and> \<not> isMirrorPod p \<and> pod_DeletionTimestamp p = None)"

lemma filterEvictable_eq: "filterEvictable ps = filter evictable ps"
  by (induction ps) (auto simp: evictable_def)

section \<open>The loop\<close>

definition backoff :: "bool \<Rightarrow> int" where
  "backoff blocked = (if blocked then 5 * second else 2 * second)"

text \<open>One round of evictions: the flag \<open>blocked\<close>, or the error that ends the drain.\<close>

fun evict_pods ::
  "api_errors \<Rightarrow> 'w node_mutator \<Rightarrow> pod list \<Rightarrow> bool \<Rightarrow> 'w \<Rightarrow> (goerr + bool) \<times> 'w" where
  "evict_pods ae mut [] blocked w = (Inr blocked, w)"
| "evict_pods ae mut (p # ps) blocked w =
     (case Evict mut p w of
        (None, w1) \<Rightarrow> evict_pods ae mut ps blocked w1
      | (Some err, w1) \<Rightarrow>
          if IsTooManyRequests ae err then evict_pods ae mut ps True w1
          else if IsNotFound ae err then evict_pods ae mut ps blocked w1
          else (Inl (Wrapf ''evict %s/%s: %w'' [AStr (pod_Namespace p), AStr (pod_Name p)] err), w1))"

text \<open>One round of the outer loop: \<open>Inl r\<close> returns \<open>r\<close>, \<open>Inr ()\<close> goes on.\<close>

definition drain_round ::
  "('w, 'z) runtime_scheme \<Rightarrow> api_errors \<Rightarrow> 'w node_mutator \<Rightarrow> 'w pod_lister \<Rightarrow> string \<Rightarrow> int \<Rightarrow> 'w
     \<Rightarrow> (goerr option + unit) \<times> 'w" where
  "drain_round rt ae mut pods nodeName deadline w =
     (case rt_now rt w of (now, w1) \<Rightarrow>
      if now > deadline then
        (Inl (Some (Errorf ''drain %s: deadline exceeded'' [AStr nodeName])), w1)
      else
     (case ListPodsOnNode pods nodeName w1 of
        (Inl err, w2) \<Rightarrow> (Inl (Some (Wrapf ''list pods on %s: %w'' [AStr nodeName] err)), w2)
      | (Inr ps, w2) \<Rightarrow>
     (if filterEvictable ps = [] then (Inl None, w2)
      else
     (case evict_pods ae mut (filterEvictable ps) False w2 of
        (Inl err, w3) \<Rightarrow> (Inl (Some err), w3)
      | (Inr blocked, w3) \<Rightarrow>
     (case rt_wait rt (backoff blocked) w3 of
        (Some err, w4) \<Rightarrow> (Inl (Some err), w4)
      | (None, w4) \<Rightarrow> (Inr (), w4))))))"

definition drain_loop ::
  "('w, 'z) runtime_scheme \<Rightarrow> api_errors \<Rightarrow> 'w node_mutator \<Rightarrow> 'w pod_lister \<Rightarrow> string \<Rightarrow> int \<Rightarrow> 'w
     \<Rightarrow> (goerr option \<times> 'w) option" where
  "drain_loop rt ae mut pods nodeName deadline w =
     poll (drain_round rt ae mut pods nodeName deadline) w"

definition drainNode ::
  "('w, 'z) runtime_scheme \<Rightarrow> api_errors \<Rightarrow> 'w node_mutator \<Rightarrow> 'w pod_lister \<Rightarrow> string \<Rightarrow> int \<Rightarrow> 'w
     \<Rightarrow> (goerr option \<times> 'w) option" where
  "drainNode rt ae mut pods nodeName timeout w =
     (case Cordon mut nodeName w of
        (Some err, w1) \<Rightarrow> Some (Some (Wrapf ''cordon: %w'' [] err), w1)
      | (None, w1) \<Rightarrow>
     (case rt_now rt w1 of (now, w2) \<Rightarrow>
        drain_loop rt ae mut pods nodeName (now + timeout) w2))"

section \<open>Facts about the drain\<close>

lemma evict_pods_step:
  assumes "evict_pods ae mut (p # ps) b w = (r, w1)" and "Evict mut p w = (e, w2)"
  shows "evict_pods ae mut ps b w2 = (r, w1) \<or> evict_pods ae mut ps True w2 = (r, w1) \<or> w1 = w2"
  using assms by (cases e) (simp_all split: if_splits)

lemma evict_pods_time:
  assumes "\<And>p. keeps_time clk (Evict mut p)" and "evict_pods ae mut ps b w = (r, w1)"
  shows "clk w \<le> clk w1"
  using assms(2)
proof (induction ps arbitrary: b w)
  case (Cons p ps)
  obtain e w2 where e: "Evict mut p w = (e, w2)" by fastforce
  have "clk w2 \<le> clk w1" using evict_pods_step[OF Cons.prems e] Cons.IH by blast
  then show ?case using keeps_timeD[OF assms(1) e] by simp
qed simp

lemma drain_round_next:
  assumes "drain_round rt ae mut pods n deadline w = (Inr (), w')"
  obtains now w1 ps w2 blocked w3 where
    "rt_now rt w = (now, w1)" "now \<le> deadline" "ListPodsOnNode pods n w1 = (Inr ps, w2)"
    "filterEvictable ps \<noteq> []" "evict_pods ae mut (filterEvictable ps) False w2 = (Inr blocked, w3)"
    "rt_wait rt (backoff blocked) w3 = (None, w')"
  using assms
  by (auto simp: drain_round_def split: prod.splits if_splits sum.splits option.splits)

lemma drain_round_progress:
  assumes "clock_progress clk rt" and "keeps_time clk (ListPodsOnNode pods n)"
    and "\<And>p. keeps_time clk (Evict mut p)"
    and "drain_round rt ae mut pods n deadline w = (Inr (), w')"
  shows "clk w \<le> deadline \<and> clk w + 2 * second \<le> clk w'"
proof -
  obtain now w1 ps w2 blocked w3 where r: "rt_now rt w = (now, w1)" "now \<le> deadline"
    "ListPodsOnNode pods n w1 = (Inr ps, w2)"
    "evict_pods ae mut (filterEvictable ps) False w2 = (Inr blocked, w3)"
    "rt_wait rt (backoff blocked) w3 = (None, w')"
    using drain_round_next[OF assms(4)] by metis
  have "2 * second \<le> backoff blocked" by (simp add: backoff_def second_def)
  then show ?thesis
    using clock_progress_now[OF assms(1) r(1)] keeps_timeD[OF assms(2) r(3)]
      evict_pods_time[OF assms(3) r(4)] clock_progress_wait[OF assms(1) r(5)] r(2)
    by linarith
qed

text \<open>A round that ends the drain without an error has just listed the pods, and found none to
  evict.\<close>

lemma drain_round_success:
  assumes "drain_round rt ae mut pods n deadline w = (Inl None, w')"
  obtains now w1 ps where "rt_now rt w = (now, w1)" "now \<le> deadline"
    "ListPodsOnNode pods n w1 = (Inr ps, w')" "filterEvictable ps = []"
  using assms
  by (auto simp: drain_round_def split: prod.splits if_splits sum.splits option.splits)

lemma drainNode_success:
  assumes "drainNode rt ae mut pods n timeout w = Some (None, w')"
  obtains w0 now w1 w2 ps where "Cordon mut n w = (None, w0)"
    "rt_now rt w1 = (now, w2)" "ListPodsOnNode pods n w2 = (Inr ps, w')" "filterEvictable ps = []"
proof -
  obtain w0 where c: "Cordon mut n w = (None, w0)"
    using assms by (auto simp: drainNode_def split: prod.splits option.splits)
  obtain t w1 where t: "rt_now rt w0 = (t, w1)" by fastforce
  have "poll (drain_round rt ae mut pods n (t + timeout)) w1 = Some (None, w')"
    using assms c t by (simp add: drainNode_def drain_loop_def)
  from poll_last[where I = "\<lambda>_. True", OF this]
  obtain w2 where "drain_round rt ae mut pods n (t + timeout) w2 = (Inl None, w')" by auto
  from drain_round_success[OF this] obtain now w3 ps where
    "rt_now rt w2 = (now, w3)" "ListPodsOnNode pods n w3 = (Inr ps, w')" "filterEvictable ps = []"
    by metis
  with c show ?thesis by (rule that)
qed

text \<open>The drain returns, after a number of rounds that the timeout bounds.\<close>

lemma drain_loop_returns:
  assumes "clock_progress clk rt" and "keeps_time clk (ListPodsOnNode pods n)"
    and "\<And>p. keeps_time clk (Evict mut p)"
    and "deadline - clk w < int k * (2 * second)"
  shows "\<exists>x. poll_n (Suc k) (drain_round rt ae mut pods n deadline) w = Some x"
proof (rule poll_n_returns[where clk = clk and deadline = deadline and d = "2 * second"])
  show "0 < 2 * second" by (simp add: second_def)
next
  fix w w1
  assume "drain_round rt ae mut pods n deadline w = (Inr (), w1)"
  then show "clk w \<le> deadline \<and> clk w + 2 * second \<le> clk w1"
    by (rule drain_round_progress[OF assms(1-3)])
next
  show "deadline - clk w < int k * (2 * second)" by (rule assms(4))
qed

lemma drainNode_total:
  assumes clock: "clock_progress clk rt"
    and list: "keeps_time clk (ListPodsOnNode pods n)"
    and evict: "\<And>p. keeps_time clk (Evict mut p)"
  shows "\<exists>r w'. drainNode rt ae mut pods n timeout w = Some (r, w')"
proof -
  obtain e w0 where c: "Cordon mut n w = (e, w0)" by fastforce
  show ?thesis
  proof (cases e)
    case (Some err)
    with c show ?thesis by (simp add: drainNode_def)
  next
    case None
    obtain t w1 where t: "rt_now rt w0 = (t, w1)" by fastforce
    let ?k = "nat (t + timeout - clk w1) + 1"
    have "t + timeout - clk w1 < int ?k * (2 * second)" by (simp add: second_def)
    from drain_loop_returns[OF clock list evict this, of ae]
    obtain x where "poll_n (Suc ?k) (drain_round rt ae mut pods n (t + timeout)) w1 = Some x" by blast
    then have "drain_loop rt ae mut pods n (t + timeout) w1 = Some x"
      unfolding drain_loop_def by (rule poll_n_poll)
    then show ?thesis using c None t by (cases x) (simp add: drainNode_def)
  qed
qed

end
