(* ===== verification/ConfigProps.thy ===== *)
theory ConfigProps
  imports PoolMatch Kubeclient Drain
begin

text \<open>
  What a loaded configuration promises, and the properties of the Kubernetes client: the
  properties of \<open>internal/config\<close> and \<open>internal/kubeclient\<close>.
\<close>

section \<open>Validation\<close>

text \<open>
  C31. Validation accepts exactly the configurations that satisfy the documented rules (with
  distinct pool names), and then changes nothing but to fill in every pool's selector.
\<close>

theorem validate_accepts_exactly:
  "Validate parse c = (None, c') \<longleftrightarrow>
     valid_config parse c \<and> c' = c\<lparr>cfg_Pools := map (with_selector parse) (cfg_Pools c)\<rparr>"
  by (rule validate_ok_iff)

text \<open>
  An error of the pool loop is about the first pool that breaks a rule: the pools before
  it are valid, have distinct names and got their selectors, and those from it on are as
  they were.
\<close>

lemma validate_reports_first:
  assumes "Validate parse c = (Some e, c')"
    and "cfg_Datacenter c \<noteq> []" and "cfg_CloudInitTemplatePath c \<noteq> []" and "cfg_Pools c \<noteq> []"
  shows "\<exists>k < length (cfg_Pools c).
      list_all (valid_pool parse) (take k (cfg_Pools c)) \<and> distinct (map pool_Name (take k (cfg_Pools c)))
      \<and> validate_pool parse k (rev (map pool_Name (take k (cfg_Pools c)))) (cfg_Pools c ! k) = Inl e
      \<and> c' = c\<lparr>cfg_Pools := map (with_selector parse) (take k (cfg_Pools c)) @ drop k (cfg_Pools c)\<rparr>"
proof -
  obtain qs where v: "validate_pools parse 0 [] (cfg_Pools c) = (Some e, qs)" "c' = c\<lparr>cfg_Pools := qs\<rparr>"
    using assms by (auto simp: Validate_def split: prod.splits)
  from validate_pools_error[OF v(1)] v(2) show ?thesis by auto
qed

text \<open>A parser of selectors for the examples: the text \<open>!!\<close> is not one.\<close>

definition demo_parse :: "string \<Rightarrow> goerr + selector" where
  "demo_parse s = (if s = ''!!'' then Inl (External ''unable to parse'') else Inr (\<lambda>ls. ls \<noteq> []))"

definition demo_pool :: "string \<Rightarrow> string \<Rightarrow> pool" where
  "demo_pool name sel =
     \<lparr>pool_Name = name, pool_CPUType = ''B'', pool_CPUCores = 2, pool_RAMMB = 2048,
      pool_DiskGB = 20, pool_Image = ''ubuntu'', pool_MinNodes = 0, pool_MaxNodes = 3,
      pool_NodeLabels = [], pool_NodeTaints = [], pool_PodSelector = sel, pool_parsedSelector = None\<rparr>"

definition demo_config :: "pool list \<Rightarrow> config" where
  "demo_config ps =
     \<lparr>cfg_Datacenter = ''EU'', cfg_VLANName = ''lan'', cfg_ServerIP = ''10.0.0.20'',
      cfg_CloudInitTemplatePath = ''t.tpl'', cfg_Pools = ps, cfg_CloudInit = None,
      cfg_Creds = \<lparr>cred_ClientID = [], cred_Secret = [], cred_JoinToken = [], cred_SSHPubKey = []\<rparr>\<rparr>"

lemmas demo_defs = demo_parse_def demo_pool_def demo_config_def

section \<open>Loading\<close>

text \<open>
  C32. A configuration that loads is safe to run: no reserved key occurs in any document of the
  file, every rule holds, every pool has the selector parsed from its text and is found
  under its own name, and the cloud-init template is set. The credentials are those of the
  decoder's zero value: \<open>Load\<close> never sets them.
\<close>

theorem load_promises:
  assumes "Load l path = Inr cfg"
  shows "(\<exists>raw cfg0. os_ReadFile l path = Inr raw
        \<and> list_all (\<lambda>d. \<not> (\<exists>k. key_in d k \<and> reserved_key k)) (yaml_Documents l raw)
        \<and> yaml_DecodeStrict l raw = Inr cfg0 \<and> cfg_Creds cfg = cfg_Creds cfg0)
    \<and> valid_config (labels_Parse l) cfg
    \<and> list_all (\<lambda>p. \<exists>sel. labels_Parse l (pool_PodSelector p) = Inr sel \<and> Selector p = Some sel
         \<and> PoolByName cfg (pool_Name p) = Some p) (cfg_Pools cfg)
    \<and> cfg_CloudInit cfg \<noteq> None"
proof -
  obtain raw cfg0 tmpl where l: "os_ReadFile l path = Inr raw"
    "rejectReservedFields (yaml_Documents l raw) = None" "yaml_DecodeStrict l raw = Inr cfg0"
    and v: "valid_config (labels_Parse l) cfg0"
    and cfg: "cfg = cfg0\<lparr>cfg_Pools := map (with_selector (labels_Parse l)) (cfg_Pools cfg0),
        cfg_CloudInit := Some tmpl\<rparr>"
    using assms by (elim Load_Inr) blast
  have names: "map pool_Name (cfg_Pools cfg) = map pool_Name (cfg_Pools cfg0)" by (simp add: cfg comp_def)
  have valid: "valid_config (labels_Parse l) cfg" using assms by (rule Load_valid)
  have "\<exists>sel. labels_Parse l (pool_PodSelector p) = Inr sel \<and> Selector p = Some sel
      \<and> PoolByName cfg (pool_Name p) = Some p" if "p \<in> set (cfg_Pools cfg)" for p
    using valid_config_with_selectors[OF v, of p] that pd.lookup_complete[of cfg p] valid
    by (auto simp: cfg valid_config_def)
  then have "list_all (\<lambda>p. \<exists>sel. labels_Parse l (pool_PodSelector p) = Inr sel \<and> Selector p = Some sel
      \<and> PoolByName cfg (pool_Name p) = Some p) (cfg_Pools cfg)"
    by (simp add: list_all_iff)
  moreover have "list_all (\<lambda>d. \<not> (\<exists>k. key_in d k \<and> reserved_key k)) (yaml_Documents l raw)"
    using l(2) by (simp add: rejectReservedFields_iff list_all_iff)
  ultimately show ?thesis using l valid by (auto simp: cfg)
qed

definition demo_loader :: loader where
  "demo_loader =
     \<lparr>os_ReadFile = (\<lambda>p. Inr p), yaml_Documents = (\<lambda>raw. []),
      yaml_DecodeStrict = (\<lambda>raw. Inr (demo_config [demo_pool ''a'' ''k=v'', demo_pool ''b'' ''k=w''])),
      labels_Parse = demo_parse, template_Parse = (\<lambda>t. Inr (\<lambda>v. Inr (ci_JoinToken v)))\<rparr>"

theorem load_promises_witness:
  "\<exists>cfg. Load demo_loader ''pools.yaml'' = Inr cfg \<and> valid_config demo_parse cfg \<and> cfg_CloudInit cfg \<noteq> None"
proof -
  have "\<exists>cfg. Load demo_loader ''pools.yaml'' = Inr cfg"
    by (simp add: Load_def demo_loader_def demo_defs Validate_def validate_pool_def isValidCPUType_def)
  then obtain cfg where l: "Load demo_loader ''pools.yaml'' = Inr cfg" by blast
  have "labels_Parse demo_loader = demo_parse" by (simp add: demo_loader_def)
  with load_promises[OF l] l show ?thesis by auto
qed

text \<open>
  C33. The scan refuses a file exactly when one of its documents has, anywhere that mappings,
  sequences and mapping values lead to, a scalar key that is a reserved word when lowered;
  and the error names such a key and its line.
\<close>

theorem reserved_fields_rejected:
  "(rejectReservedFields ds = None) = (\<not> (\<exists>d \<in> set ds. \<exists>k. key_in d k \<and> reserved_key k))
   \<and> (case rejectReservedFields ds of None \<Rightarrow> True
      | Some e \<Rightarrow> \<exists>d \<in> set ds. \<exists>k. key_in d k \<and> reserved_key k \<and> e = reserved_error k)"
  using rejectReservedFields_iff[of ds] rejectReservedFields_error[of ds]
  by (auto split: option.splits)

section \<open>The Kubernetes client\<close>

text \<open>
  The drain tells the errors of evictions apart through the client's wrapping: where the
  predicates of \<open>apierrors\<close> look through wrapped errors, a refusal for a disruption budget
  only delays the round, a pod that is gone is skipped, and any other error of the API ends
  the round, wrapped, with the API's error inside.
\<close>

lemma client_eviction_classified:
  assumes "\<And>f a e. IsTooManyRequests ae (Wrapf f a e) = IsTooManyRequests ae e"
    and "\<And>f a e. IsNotFound ae (Wrapf f a e) = IsNotFound ae e"
  shows "evict_pods ae (Client_as_NodeMutator K) (p # ps) b w =
    (case api_EvictV1 K (pod_Namespace p) (pod_Name p, pod_Namespace p) w of
       (None, w1) \<Rightarrow> evict_pods ae (Client_as_NodeMutator K) ps b w1
     | (Some e, w1) \<Rightarrow>
         if IsTooManyRequests ae e then evict_pods ae (Client_as_NodeMutator K) ps True w1
         else if IsNotFound ae e then evict_pods ae (Client_as_NodeMutator K) ps b w1
         else (Inl (Wrapf ''evict %s/%s: %w'' [AStr (pod_Namespace p), AStr (pod_Name p)]
                 (Wrapf ''evict pod %s/%s: %w'' [AStr (pod_Namespace p), AStr (pod_Name p)] e)), w1))"
  using assms
  by (auto simp: Client_as_NodeMutator_def Client_Evict_def split: prod.splits option.splits)

end
