(* ===== verification/Json.thy ===== *)
theory Json
  imports Types
begin

text \<open>
  What the client uses of \<open>encoding/json\<close>: the grammar that \<open>Unmarshal\<close> checks before it
  decodes anything, strings with their escapes, and the decoding of a value into the types
  of the client (a string, a \<open>json.Number\<close>, an \<open>int64\<close>, slices, structs); and the text that
  \<open>Marshal\<close> writes. A decoding that fails is \<^const>\<open>None\<close>: every caller discards the target
  then, so the partial result that Go leaves in it is not modelled.
\<close>

section \<open>Values\<close>

text \<open>Numbers keep their literal; the members of an object keep their order and duplicates.\<close>

datatype json =
    JNull
  | JBool bool
  | JNum string
  | JStr string
  | JArr "json list"
  | JObj "(string \<times> json) list"

section \<open>Strings\<close>

definition byte :: "char \<Rightarrow> nat" where
  "byte c = of_char c"

definition is_digit :: "char \<Rightarrow> bool" where
  "is_digit c = (48 \<le> byte c \<and> byte c \<le> 57)"

text \<open>\<open>utf8.DecodeRune\<close>: the number of bytes of the valid rune at the start, or 0.\<close>

definition cont :: "nat \<Rightarrow> bool" where
  "cont b = (0x80 \<le> b \<and> b \<le> 0xBF)"

definition utf8_len :: "string \<Rightarrow> nat" where
  "utf8_len s =
     (case map byte (take 4 s) of
        [] \<Rightarrow> 0
      | b0 # bs \<Rightarrow>
          if b0 < 0x80 then 1
          else if 0xC2 \<le> b0 \<and> b0 \<le> 0xDF then
            (case bs of b1 # _ \<Rightarrow> if cont b1 then 2 else 0 | _ \<Rightarrow> 0)
          else if 0xE0 \<le> b0 \<and> b0 \<le> 0xEF then
            (case bs of b1 # b2 # _ \<Rightarrow>
                if cont b1 \<and> cont b2 \<and> (b0 = 0xE0 \<longrightarrow> 0xA0 \<le> b1) \<and> (b0 = 0xED \<longrightarrow> b1 \<le> 0x9F) then 3 else 0
             | _ \<Rightarrow> 0)
          else if 0xF0 \<le> b0 \<and> b0 \<le> 0xF4 then
            (case bs of b1 # b2 # b3 # _ \<Rightarrow>
                if cont b1 \<and> cont b2 \<and> cont b3 \<and> (b0 = 0xF0 \<longrightarrow> 0x90 \<le> b1) \<and> (b0 = 0xF4 \<longrightarrow> b1 \<le> 0x8F)
                then 4 else 0
             | _ \<Rightarrow> 0)
          else 0)"

text \<open>\<open>utf8.AppendRune\<close>, and the replacement character that stands for invalid input.\<close>

definition utf8_encode :: "nat \<Rightarrow> string" where
  "utf8_encode u =
     map char_of
       (if u < 0x80 then [u]
        else if u < 0x800 then [0xC0 + u div 64, 0x80 + u mod 64]
        else if u < 0x10000 then [0xE0 + u div 4096, 0x80 + u div 64 mod 64, 0x80 + u mod 64]
        else [0xF0 + u div 262144, 0x80 + u div 4096 mod 64, 0x80 + u div 64 mod 64, 0x80 + u mod 64])"

definition replacement :: string where
  "replacement = [CHR 0xEF, CHR 0xBF, CHR 0xBD]"

text \<open>Four hexadecimal digits, and \<open>\u\<close> followed by four.\<close>

definition hex_value :: "char \<Rightarrow> nat option" where
  "hex_value c = map_of (zip ''0123456789abcdefABCDEF'' ([0..<16] @ [10..<16])) c"

definition hex4 :: "string \<Rightarrow> nat option" where
  "hex4 s =
     (case map hex_value (take 4 s) of
        [Some a, Some b, Some c, Some d] \<Rightarrow> Some (((a * 16 + b) * 16 + c) * 16 + d)
      | _ \<Rightarrow> None)"

definition getu4 :: "string \<Rightarrow> nat option" where
  "getu4 s = (if prefix [CHR 0x5C, CHR ''u''] s then hex4 (drop 2 s) else None)"

definition is_surrogate :: "nat \<Rightarrow> bool" where
  "is_surrogate u = (0xD800 \<le> u \<and> u < 0xE000)"

definition surrogate_pair :: "nat \<Rightarrow> string \<Rightarrow> nat option" where
  "surrogate_pair u rest =
     (case getu4 rest of
        None \<Rightarrow> None
      | Some v \<Rightarrow>
          if u < 0xDC00 \<and> 0xDC00 \<le> v \<and> v < 0xE000
          then Some (0x10000 + (u - 0xD800) * 1024 + (v - 0xDC00)) else None)"

definition escapes :: "(char \<times> char) list" where
  "escapes =
     [(CHR 0x22, CHR 0x22), (CHR 0x5C, CHR 0x5C), (CHR ''/'', CHR ''/''), (CHR ''b'', CHR 0x08),
      (CHR ''f'', CHR 0x0C), (CHR ''n'', CHR 0x0A), (CHR ''r'', CHR 0x0D), (CHR ''t'', CHR 0x09)]"

definition prepend :: "string \<Rightarrow> (string \<times> string) option \<Rightarrow> (string \<times> string) option" where
  "prepend xs r = map_option (\<lambda>(t, rest). (xs @ t, rest)) r"

text \<open>The rest of a string after its opening quote: its value, and what follows the closing
  quote.\<close>

function parse_string :: "string \<Rightarrow> (string \<times> string) option" where
  "parse_string s =
     (case s of
        [] \<Rightarrow> None
      | c # r \<Rightarrow>
          if c = CHR 0x22 then Some ([], r)
          else if c = CHR 0x5C then
            (case r of
               [] \<Rightarrow> None
             | e # r2 \<Rightarrow>
                 if e = CHR ''u'' then
                   (case hex4 r2 of
                      None \<Rightarrow> None
                    | Some u \<Rightarrow>
                        if is_surrogate u then
                          (case surrogate_pair u (drop 4 r2) of
                             Some v \<Rightarrow> prepend (utf8_encode v) (parse_string (drop 10 r2))
                           | None \<Rightarrow> prepend replacement (parse_string (drop 4 r2)))
                        else prepend (utf8_encode u) (parse_string (drop 4 r2)))
                 else
                   (case map_of escapes e of
                      None \<Rightarrow> None
                    | Some x \<Rightarrow> prepend [x] (parse_string r2)))
          else if byte c < 0x20 then None
          else if utf8_len s = 0 then prepend replacement (parse_string r)
          else prepend (take (utf8_len s) s) (parse_string (drop (utf8_len s) s)))"
  by pat_completeness auto
termination
  by (relation "measure length") auto

declare parse_string.simps [simp del]

section \<open>Numbers\<close>

text \<open>\<open>isValidNumber\<close>.\<close>

definition skip_digits :: "string \<Rightarrow> string" where
  "skip_digits s = dropWhile is_digit s"

definition number_int :: "string \<Rightarrow> string option" where
  "number_int s =
     (case s of
        [] \<Rightarrow> None
      | c # r \<Rightarrow> if c = CHR ''0'' then Some r else if is_digit c then Some (skip_digits r) else None)"

definition number_frac :: "string \<Rightarrow> string" where
  "number_frac s =
     (case s of
        c # d # r \<Rightarrow> if c = CHR ''.'' \<and> is_digit d then skip_digits r else s
      | _ \<Rightarrow> s)"

definition number_exp :: "string \<Rightarrow> string option" where
  "number_exp s =
     (case s of
        c # d # r \<Rightarrow>
          if c = CHR ''e'' \<or> c = CHR ''E'' then
            (if d = CHR ''+'' \<or> d = CHR ''-'' then (if r = [] then None else Some (skip_digits r))
             else Some (skip_digits (d # r)))
          else Some s
      | _ \<Rightarrow> Some s)"

definition isValidNumber :: "string \<Rightarrow> bool" where
  "isValidNumber s =
     (let s1 = (case s of [] \<Rightarrow> [] | c # r \<Rightarrow> if c = CHR ''-'' then r else s) in
      case number_int s1 of
        None \<Rightarrow> False
      | Some s2 \<Rightarrow> number_exp (number_frac s2) = Some [])"

definition number_char :: "char \<Rightarrow> bool" where
  "number_char c = (is_digit c \<or> c \<in> set ''+-.eE'')"

section \<open>Texts\<close>

definition is_ws :: "char \<Rightarrow> bool" where
  "is_ws c = (c = CHR '' '' \<or> c = CHR 0x09 \<or> c = CHR 0x0A \<or> c = CHR 0x0D)"

definition skip_ws :: "string \<Rightarrow> string" where
  "skip_ws s = dropWhile is_ws s"

definition expect :: "char \<Rightarrow> string \<Rightarrow> string option" where
  "expect c s = (case skip_ws s of [] \<Rightarrow> None | x # r \<Rightarrow> if x = c then Some r else None)"

definition literal :: "string \<Rightarrow> json \<Rightarrow> string \<Rightarrow> (json \<times> string) option" where
  "literal word v s = (if prefix word s then Some (v, drop (length word) s) else None)"

definition parse_number :: "string \<Rightarrow> (json \<times> string) option" where
  "parse_number s =
     (let lit = takeWhile number_char s in
      if isValidNumber lit then Some (JNum lit, dropWhile number_char s) else None)"

text \<open>
  A value, the elements of an array and the members of an object after their opening
  bracket. The first argument is fuel (a call on the same text uses one unit, a bracket
  consumes a character, so twice the length of the text is enough); the second is the
  nesting that is left of the scanner's limit.
\<close>

fun parse_value :: "nat \<Rightarrow> int \<Rightarrow> string \<Rightarrow> (json \<times> string) option"
  and parse_elems :: "nat \<Rightarrow> int \<Rightarrow> string \<Rightarrow> (json list \<times> string) option"
  and parse_members :: "nat \<Rightarrow> int \<Rightarrow> string \<Rightarrow> ((string \<times> json) list \<times> string) option" where
  "parse_value 0 d s = None"
| "parse_value (Suc f) d s =
     (case skip_ws s of
        [] \<Rightarrow> None
      | c # r \<Rightarrow>
          if c = CHR ''{'' then
            (if d \<le> 0 then None
             else (case expect (CHR ''}'') r of
                     Some r1 \<Rightarrow> Some (JObj [], r1)
                   | None \<Rightarrow> map_option (\<lambda>(ms, r1). (JObj ms, r1)) (parse_members f (d - 1) r)))
          else if c = CHR ''['' then
            (if d \<le> 0 then None
             else (case expect (CHR '']'') r of
                     Some r1 \<Rightarrow> Some (JArr [], r1)
                   | None \<Rightarrow> map_option (\<lambda>(vs, r1). (JArr vs, r1)) (parse_elems f (d - 1) r)))
          else if c = CHR 0x22 then map_option (\<lambda>(t, r1). (JStr t, r1)) (parse_string r)
          else if c = CHR ''t'' then literal ''true'' (JBool True) (c # r)
          else if c = CHR ''f'' then literal ''false'' (JBool False) (c # r)
          else if c = CHR ''n'' then literal ''null'' JNull (c # r)
          else parse_number (c # r))"
| "parse_elems 0 d s = None"
| "parse_elems (Suc f) d s =
     (case parse_value f d s of
        None \<Rightarrow> None
      | Some (v, r) \<Rightarrow>
          (case expect (CHR '']'') r of
             Some r1 \<Rightarrow> Some ([v], r1)
           | None \<Rightarrow>
               (case expect (CHR '','') r of
                  None \<Rightarrow> None
                | Some r1 \<Rightarrow> map_option (\<lambda>(vs, r2). (v # vs, r2)) (parse_elems f d r1))))"
| "parse_members 0 d s = None"
| "parse_members (Suc f) d s =
     (case expect (CHR 0x22) s of
        None \<Rightarrow> None
      | Some r0 \<Rightarrow>
     (case parse_string r0 of
        None \<Rightarrow> None
      | Some (k, r1) \<Rightarrow>
     (case expect (CHR '':'') r1 of
        None \<Rightarrow> None
      | Some r2 \<Rightarrow>
     (case parse_value f d r2 of
        None \<Rightarrow> None
      | Some (v, r3) \<Rightarrow>
          (case expect (CHR ''}'') r3 of
             Some r4 \<Rightarrow> Some ([(k, v)], r4)
           | None \<Rightarrow>
               (case expect (CHR '','') r3 of
                  None \<Rightarrow> None
                | Some r4 \<Rightarrow> map_option (\<lambda>(ms, r5). ((k, v) # ms, r5)) (parse_members f d r4)))))))"

definition parse_json :: "string \<Rightarrow> json option" where
  "parse_json s =
     (case parse_value (Suc (2 * length s)) 10000 s of
        None \<Rightarrow> None
      | Some (v, r) \<Rightarrow> if skip_ws r = [] then Some v else None)"

section \<open>Decoding\<close>

text \<open>Into a string, a \<open>json.Number\<close> (a quoted number is one too) and an \<open>int64\<close>; \<open>null\<close> leaves
  the target as it is.\<close>

definition into_string :: "json \<Rightarrow> string \<Rightarrow> string option" where
  "into_string v old = (case v of JNull \<Rightarrow> Some old | JStr s \<Rightarrow> Some s | _ \<Rightarrow> None)"

definition into_number :: "json \<Rightarrow> string \<Rightarrow> string option" where
  "into_number v old =
     (case v of
        JNull \<Rightarrow> Some old
      | JNum lit \<Rightarrow> Some lit
      | JStr s \<Rightarrow> if isValidNumber s then Some s else None
      | _ \<Rightarrow> None)"

text \<open>\<open>strconv.ParseInt(lit, 10, 64)\<close> on a number literal.\<close>

definition parse_int64 :: "string \<Rightarrow> int option" where
  "parse_int64 lit =
     (let neg = prefix ''-'' lit; ds = (if neg then drop 1 lit else lit);
          n = (if neg then - int (read_nat ds) else int (read_nat ds))
      in if ds \<noteq> [] \<and> list_all is_digit ds \<and> - (2 ^ 63) \<le> n \<and> n < 2 ^ 63 then Some n else None)"

definition into_int64 :: "json \<Rightarrow> int \<Rightarrow> int option" where
  "into_int64 v old = (case v of JNull \<Rightarrow> Some old | JNum lit \<Rightarrow> parse_int64 lit | _ \<Rightarrow> None)"

text \<open>Into a slice, whose elements start from the zero value; into \<open>[]json.RawMessage\<close> and
  \<open>map[string]json.RawMessage\<close>, whose elements are the values themselves.\<close>

definition into_slice :: "(json \<Rightarrow> 'a option) \<Rightarrow> json \<Rightarrow> 'a list option" where
  "into_slice dec v = (case v of JNull \<Rightarrow> Some [] | JArr vs \<Rightarrow> those (map dec vs) | _ \<Rightarrow> None)"

definition into_raw_list :: "json \<Rightarrow> json list option" where
  "into_raw_list v = (case v of JNull \<Rightarrow> Some [] | JArr vs \<Rightarrow> Some vs | _ \<Rightarrow> None)"

definition into_raw_map :: "json \<Rightarrow> (string, json) gomap option" where
  "into_raw_map v =
     (case v of JNull \<Rightarrow> Some [] | JObj ms \<Rightarrow> Some (foldl (\<lambda>m (k, x). AList.update k x m) [] ms) | _ \<Rightarrow> None)"

definition into_strings :: "json \<Rightarrow> string list option" where
  "into_strings = into_slice (\<lambda>v. into_string v [])"

text \<open>Into a struct: the members in order, each through the function of the field that its key
  names; field names match up to case, and every tag of the client is in lower case.\<close>

fun decode_members ::
  "(string \<Rightarrow> json \<Rightarrow> 'r \<Rightarrow> 'r option) \<Rightarrow> (string \<times> json) list \<Rightarrow> 'r \<Rightarrow> 'r option" where
  "decode_members field [] r = Some r"
| "decode_members field ((k, v) # ms) r =
     (case field (fold_case k) v r of None \<Rightarrow> None | Some r1 \<Rightarrow> decode_members field ms r1)"

definition into_struct :: "(string \<Rightarrow> json \<Rightarrow> 'r \<Rightarrow> 'r option) \<Rightarrow> 'r \<Rightarrow> json \<Rightarrow> 'r option" where
  "into_struct field zero v =
     (case v of JNull \<Rightarrow> Some zero | JObj ms \<Rightarrow> decode_members field ms zero | _ \<Rightarrow> None)"

definition queue_status_field :: "string \<Rightarrow> json \<Rightarrow> queue_status \<Rightarrow> queue_status option" where
  "queue_status_field k v q =
     (if k = ''id'' then map_option (\<lambda>x. q\<lparr>qs_ID := x\<rparr>) (into_number v (qs_ID q))
      else if k = ''status'' then map_option (\<lambda>x. q\<lparr>qs_Status := x\<rparr>) (into_string v (qs_Status q))
      else if k = ''server'' then map_option (\<lambda>x. q\<lparr>qs_Server := x\<rparr>) (into_string v (qs_Server q))
      else if k = ''description'' then map_option (\<lambda>x. q\<lparr>qs_Description := x\<rparr>) (into_string v (qs_Description q))
      else if k = ''added'' then map_option (\<lambda>x. q\<lparr>qs_Added := x\<rparr>) (into_string v (qs_Added q))
      else if k = ''executed'' then map_option (\<lambda>x. q\<lparr>qs_Executed := x\<rparr>) (into_string v (qs_Executed q))
      else if k = ''completed'' then map_option (\<lambda>x. q\<lparr>qs_Completed := x\<rparr>) (into_string v (qs_Completed q))
      else if k = ''log'' then map_option (\<lambda>x. q\<lparr>qs_Log := x\<rparr>) (into_string v (qs_Log q))
      else Some q)"

definition server_field :: "string \<Rightarrow> json \<Rightarrow> server \<Rightarrow> server option" where
  "server_field k v s =
     (if k = ''id'' then map_option (\<lambda>x. s\<lparr>srv_ID := x\<rparr>) (into_string v (srv_ID s))
      else if k = ''name'' then map_option (\<lambda>x. s\<lparr>srv_Name := x\<rparr>) (into_string v (srv_Name s))
      else if k = ''power'' then map_option (\<lambda>x. s\<lparr>srv_Power := x\<rparr>) (into_string v (srv_Power s))
      else if k = ''datacenter'' then map_option (\<lambda>x. s\<lparr>srv_Datacenter := x\<rparr>) (into_string v (srv_Datacenter s))
      else Some s)"

definition into_queue :: "json \<Rightarrow> queue_status list option" where
  "into_queue = into_slice (into_struct queue_status_field zero_queue_status)"

definition into_servers :: "json \<Rightarrow> server list option" where
  "into_servers = into_slice (into_struct server_field zero_server)"

text \<open>\<open>json.Unmarshal\<close>: nothing is decoded from a text that is not JSON.\<close>

definition Unmarshal :: "(json \<Rightarrow> 'a option) \<Rightarrow> string \<Rightarrow> 'a option" where
  "Unmarshal into body = Option.bind (parse_json body) into"

section \<open>Encoding\<close>

text \<open>The text of a string between its quotes, as \<open>Marshal\<close> writes it (with the escapes for
  HTML, which are on by default).\<close>

definition html_safe :: "char \<Rightarrow> bool" where
  "html_safe c = (32 \<le> byte c \<and> c \<notin> set [CHR 0x22, CHR 0x5C, CHR ''<'', CHR ''>'', CHR ''&''])"

definition escape_byte :: "char \<Rightarrow> string" where
  "escape_byte c =
     (case map_of [(CHR 0x22, CHR 0x22), (CHR 0x5C, CHR 0x5C), (CHR 0x08, CHR ''b''), (CHR 0x0C, CHR ''f''),
                   (CHR 0x0A, CHR ''n''), (CHR 0x0D, CHR ''r''), (CHR 0x09, CHR ''t'')] c of
        Some e \<Rightarrow> [CHR 0x5C, e]
      | None \<Rightarrow> [CHR 0x5C, CHR ''u'', CHR ''0'', CHR ''0'', digit (byte c div 16), digit (byte c mod 16)])"

function quote_body :: "string \<Rightarrow> string" where
  "quote_body s =
     (case s of
        [] \<Rightarrow> []
      | c # r \<Rightarrow>
          if byte c < 0x80 then
            (if html_safe c then c # quote_body r else escape_byte c @ quote_body r)
          else if utf8_len s = 0 then CHR 0x5C # ''ufffd'' @ quote_body r
          else if prefix [CHR 0xE2, CHR 0x80, CHR 0xA8] s then CHR 0x5C # ''u2028'' @ quote_body (drop 3 s)
          else if prefix [CHR 0xE2, CHR 0x80, CHR 0xA9] s then CHR 0x5C # ''u2029'' @ quote_body (drop 3 s)
          else take (utf8_len s) s @ quote_body (drop (utf8_len s) s))"
  by pat_completeness auto
termination
  by (relation "measure length") auto

declare quote_body.simps [simp del]

definition quote :: "string \<Rightarrow> string" where
  "quote s = CHR 0x22 # quote_body s @ [CHR 0x22]"

fun print_json :: "json \<Rightarrow> string" where
  "print_json JNull = ''null''"
| "print_json (JBool b) = (if b then ''true'' else ''false'')"
| "print_json (JNum lit) = lit"
| "print_json (JStr s) = quote s"
| "print_json (JArr vs) = ''['' @ join (map print_json vs) '','' @ '']''"
| "print_json (JObj ms) = ''{'' @ join (map (\<lambda>(k, v). quote k @ '':'' @ print_json v) ms) '','' @ ''}''"

text \<open>A struct with \<open>omitempty\<close> on some fields.\<close>

definition string_member :: "bool \<Rightarrow> string \<Rightarrow> string \<Rightarrow> (string \<times> json) list" where
  "string_member omitempty k s = (if omitempty \<and> s = [] then [] else [(k, JStr s)])"

definition int_member :: "bool \<Rightarrow> string \<Rightarrow> int \<Rightarrow> (string \<times> json) list" where
  "int_member omitempty k n = (if omitempty \<and> n = 0 then [] else [(k, JNum (show_int n))])"

definition create_request_json :: "create_server_request \<Rightarrow> json" where
  "create_request_json r =
     JObj (string_member False ''name'' (req_Name r)
         @ string_member True ''password'' (req_Password r)
         @ string_member True ''passwordValidate'' (req_PasswordValidate r)
         @ string_member True ''ssh-key'' (req_SSHKey r)
         @ string_member False ''datacenter'' (req_Datacenter r)
         @ string_member False ''image'' (req_Image r)
         @ string_member False ''cpu'' (req_CPU r)
         @ int_member False ''ram'' (req_RAM r)
         @ string_member False ''disk'' (req_Disk r)
         @ string_member True ''dailybackup'' (req_DailyBackup r)
         @ string_member True ''managed'' (req_Managed r)
         @ string_member False ''network'' (req_Network r)
         @ int_member True ''quantity'' (req_Quantity r)
         @ string_member False ''billingcycle'' (req_BillingCycle r)
         @ string_member True ''monthlypackage'' (req_MonthlyPackage r)
         @ string_member False ''poweronaftercreate'' (req_PowerOn r)
         @ string_member True ''script-file'' (req_ScriptFile r))"

end
