(* ===== verification/Http.thy ===== *)
theory Http
  imports Errors Json
begin

text \<open>
  What the Kamatera clients ask of \<open>net/http\<close>, and \<open>redactErr\<close> of
  \<open>internal/kamatera/client.go\<close>. A request is sent with \<open>net_Do\<close>, which answers with the
  text of a transport error or with the status code and the bytes of the body that could be
  read. The bearer token of the console client is shared by all callers under a mutex:
  \<open>net_others\<close> is what the other callers made of it since the mutex was last held.
\<close>

record http_request =
  rq_Method :: string
  rq_URL :: string
  rq_Headers :: "(string \<times> string) list"
  rq_Body :: "string option"

record http_response =
  rs_StatusCode :: int
  rs_Body :: string

record token_cache =
  tc_token :: string
  tc_expiresAt :: int

record 'w net = "'w runtime" +
  net_ParseURL :: "string \<Rightarrow> goerr option"
  net_Do :: "http_request \<Rightarrow> 'w \<Rightarrow> (string + http_response) \<times> 'w"
  net_others :: "token_cache \<Rightarrow> 'w \<Rightarrow> token_cache \<times> 'w"

definition success_code :: "int \<Rightarrow> bool" where
  "success_code code = (code \<ge> 200 \<and> code < 300)"

text \<open>\<open>redactErr\<close>, on the text of the error.\<close>

fun redact :: "string list \<Rightarrow> string \<Rightarrow> string" where
  "redact [] s = s"
| "redact (h # hs) s =
     (if contains s (h @ '':'') then redact hs (replace_all s (h @ '':'') (h @ '':<redacted>''))
      else redact hs s)"

definition redactErr :: "string \<Rightarrow> goerr" where
  "redactErr s = ErrorString (redact [''AuthClientId'', ''AuthSecret''] s)"

lemma redactErr_transport [simp]: "as_APIError (redactErr s) = None"
  by (simp add: redactErr_def)

text \<open>An error that \<open>encoding/json\<close> returns: of none of the client's types.\<close>

definition json_error :: goerr where
  "json_error = External ''encoding/json''"

end
