(* ===== verification/Console.thy ===== *)
theory Console
  imports Http Config
begin

text \<open>
  \<open>internal/kamatera/console_client.go\<close>: the client of the console API, which caches a
  bearer token until shortly before it expires, and fetches a new one when the API answers
  401. The cache is threaded through the calls; at each locking of its mutex the other
  callers may have changed it.
\<close>

section \<open>Data\<close>

definition DefaultConsoleBaseURL :: string where
  "DefaultConsoleBaseURL = ''https://console.kamatera.com/service''"

record console =
  con_baseURL :: string
  con_creds :: credentials

text \<open>\<open>time.Unix(sec, 0)\<close> in nanoseconds: the seconds are kept in an \<open>int64\<close> counted from the
  year 1, and wrap around there.\<close>

definition unixToInternal :: int where
  "unixToInternal = 62135596800"

definition time_Unix :: "int \<Rightarrow> int" where
  "time_Unix sec = (wrap64 (sec + unixToInternal) - unixToInternal) * second"

lemma time_Unix_id: "0 \<le> sec \<Longrightarrow> sec < 2 ^ 62 \<Longrightarrow> time_Unix sec = sec * second"
  by (simp add: time_Unix_def wrap64_id unixToInternal_def)

definition zero_token_cache :: token_cache where
  "zero_token_cache = \<lparr>tc_token = [], tc_expiresAt = - (unixToInternal * second)\<rparr>"

definition newConsoleClient :: "credentials \<Rightarrow> console" where
  "newConsoleClient creds = \<lparr>con_baseURL = DefaultConsoleBaseURL, con_creds = creds\<rparr>"

record auth_response =
  ar_Authentication :: string
  ar_Expires :: int

definition auth_response_field :: "string \<Rightarrow> json \<Rightarrow> auth_response \<Rightarrow> auth_response option" where
  "auth_response_field k v r =
     (if k = ''authentication'' then
        map_option (\<lambda>x. r\<lparr>ar_Authentication := x\<rparr>) (into_string v (ar_Authentication r))
      else if k = ''expires'' then map_option (\<lambda>x. r\<lparr>ar_Expires := x\<rparr>) (into_int64 v (ar_Expires r))
      else Some r)"

definition into_auth_response :: "json \<Rightarrow> auth_response option" where
  "into_auth_response = into_struct auth_response_field \<lparr>ar_Authentication = [], ar_Expires = 0\<rparr>"

section \<open>The token\<close>

definition auth_request :: "console \<Rightarrow> http_request" where
  "auth_request c =
     \<lparr>rq_Method = ''POST'', rq_URL = con_baseURL c @ ''/authenticate'',
      rq_Headers = [(''Content-Type'', ''application/json''), (''Accept'', ''application/json'')],
      rq_Body = Some (print_json (JObj [(''clientId'', JStr (KamateraClientID (con_creds c))),
                                        (''secret'', JStr (KamateraSecret (con_creds c)))]))\<rparr>"

text \<open>The test of the cached token; the clock is read only when there is one.\<close>

definition token_fresh :: "('w, 'z) net_scheme \<Rightarrow> token_cache \<Rightarrow> 'w \<Rightarrow> bool \<times> 'w" where
  "token_fresh net tc w =
     (if tc_token tc = [] then (False, w)
      else (case rt_now net w of (now, w1) \<Rightarrow> (now + 30 * second < tc_expiresAt tc, w1)))"

definition accept_token :: "http_response \<Rightarrow> token_cache \<Rightarrow> goerr option \<times> token_cache" where
  "accept_token resp tc =
     (if \<not> success_code (rs_StatusCode resp) then
        (Some (APIError ''POST'' ''/authenticate'' (rs_StatusCode resp) (rs_Body resp)), tc)
      else
        (case Unmarshal into_auth_response (rs_Body resp) of
           None \<Rightarrow> (Some (Wrapf ''decode authenticate response: %w'' [] json_error), tc)
         | Some ar \<Rightarrow>
             if ar_Authentication ar = [] then
               (Some (Errorf ''authenticate: empty token in response'' []), tc)
             else (None, \<lparr>tc_token = ar_Authentication ar, tc_expiresAt = time_Unix (ar_Expires ar)\<rparr>)))"

text \<open>\<open>ensureToken\<close> holds the mutex throughout.\<close>

definition ensureToken ::
  "('w, 'z) net_scheme \<Rightarrow> console \<Rightarrow> token_cache \<Rightarrow> 'w \<Rightarrow> goerr option \<times> token_cache \<times> 'w" where
  "ensureToken net c tc0 w0 =
     (case net_others net tc0 w0 of (tc, w) \<Rightarrow>
     (case token_fresh net tc w of (fresh, w1) \<Rightarrow>
      if fresh then (None, tc, w1)
      else
     (case net_ParseURL net (con_baseURL c @ ''/authenticate'') of
        Some err \<Rightarrow> (Some err, tc, w1)
      | None \<Rightarrow>
     (case net_Do net (auth_request c) w1 of
        (Inl msg, w2) \<Rightarrow> (Some (Wrapf ''authenticate: %w'' [] (redactErr msg)), tc, w2)
      | (Inr resp, w2) \<Rightarrow>
          (case accept_token resp tc of (err, tc1) \<Rightarrow> (err, tc1, w2))))))"

section \<open>Reading\<close>

definition get_request :: "console \<Rightarrow> string \<Rightarrow> string \<Rightarrow> http_request" where
  "get_request c token path =
     \<lparr>rq_Method = ''GET'', rq_URL = con_baseURL c @ path,
      rq_Headers = [(''Authorization'', ''Bearer '' @ token), (''Accept'', ''application/json'')],
      rq_Body = None\<rparr>"

definition bearerGetOnce ::
  "('w, 'z) net_scheme \<Rightarrow> console \<Rightarrow> string \<Rightarrow> token_cache \<Rightarrow> 'w \<Rightarrow> (goerr + string) \<times> token_cache \<times> 'w" where
  "bearerGetOnce net c path tc0 w0 =
     (case net_others net tc0 w0 of (tc, w) \<Rightarrow>
     (case net_ParseURL net (con_baseURL c @ path) of
        Some err \<Rightarrow> (Inl err, tc, w)
      | None \<Rightarrow>
     (case net_Do net (get_request c (tc_token tc) path) w of
        (Inl msg, w1) \<Rightarrow> (Inl (Wrapf ''kamatera: GET %s: %w'' [AStr path] (redactErr msg)), tc, w1)
      | (Inr resp, w1) \<Rightarrow>
          if \<not> success_code (rs_StatusCode resp) then
            (Inl (APIError ''GET'' path (rs_StatusCode resp) (rs_Body resp)), tc, w1)
          else (Inr (rs_Body resp), tc, w1))))"

definition unauthorized :: "goerr \<Rightarrow> bool" where
  "unauthorized err = (case as_APIError err of None \<Rightarrow> False | Some (m, p, code, b) \<Rightarrow> code = 401)"

definition bearerGet ::
  "('w, 'z) net_scheme \<Rightarrow> console \<Rightarrow> string \<Rightarrow> token_cache \<Rightarrow> 'w \<Rightarrow> (goerr + string) \<times> token_cache \<times> 'w" where
  "bearerGet net c path tc w =
     (case ensureToken net c tc w of
        (Some err, tc1, w1) \<Rightarrow> (Inl err, tc1, w1)
      | (None, tc1, w1) \<Rightarrow>
     (case bearerGetOnce net c path tc1 w1 of
        (Inr body, tc2, w2) \<Rightarrow> (Inr body, tc2, w2)
      | (Inl err, tc2, w2) \<Rightarrow>
          if unauthorized err then
            (case net_others net tc2 w2 of (tc3, w3) \<Rightarrow>
             (case ensureToken net c (tc3\<lparr>tc_token := []\<rparr>) w3 of
                (Some err2, tc4, w4) \<Rightarrow> (Inl err2, tc4, w4)
              | (None, tc4, w4) \<Rightarrow> bearerGetOnce net c path tc4 w4))
          else (Inl err, tc2, w2)))"

definition decodeQueueStatuses :: "string \<Rightarrow> goerr + queue_status list" where
  "decodeQueueStatuses body =
     (case Unmarshal into_queue body of
        None \<Rightarrow> Inl (Wrapf ''decode queue array: %w (body: %s)'' [AStr (truncate_str body 200)] json_error)
      | Some qs \<Rightarrow> Inr qs)"

definition ListQueue ::
  "('w, 'z) net_scheme \<Rightarrow> console \<Rightarrow> token_cache \<Rightarrow> 'w \<Rightarrow> (goerr + queue_status list) \<times> token_cache \<times> 'w" where
  "ListQueue net c tc w =
     (case bearerGet net c ''/queue'' tc w of
        (Inl err, s) \<Rightarrow> (Inl err, s)
      | (Inr body, s) \<Rightarrow> (decodeQueueStatuses body, s))"

definition ListServers ::
  "('w, 'z) net_scheme \<Rightarrow> console \<Rightarrow> token_cache \<Rightarrow> 'w \<Rightarrow> (goerr + server list) \<times> token_cache \<times> 'w" where
  "ListServers net c tc w =
     (case bearerGet net c ''/servers'' tc w of
        (Inl err, s) \<Rightarrow> (Inl err, s)
      | (Inr body, s) \<Rightarrow>
          (case Unmarshal into_servers body of
             None \<Rightarrow> (Inl (Wrapf ''decode /servers response: %w'' [] json_error), s)
           | Some servers \<Rightarrow> (Inr servers, s)))"

end
