(* ===== verification/Client.thy ===== *)
theory Client
  imports Console
begin

text \<open>
  \<open>internal/kamatera/client.go\<close>: the REST client. Requests to the cloudcli API are retried
  when that is safe; the creation of a server is sent once, and when its answer is lost the
  client looks for the server by name. The console client's token cache and the state of
  the world are threaded through; the recovery loop has no bound of its own and is a
  \<^const>\<open>poll\<close>. The two waiting operations are in \<open>Watcher\<close>.
\<close>

section \<open>Construction\<close>

definition DefaultBaseURL :: string where
  "DefaultBaseURL = ''https://cloudcli.cloudwm.com''"

record http_client =
  hc_baseURL :: string
  hc_consoleBaseURL :: string
  hc_creds :: credentials
  hc_maxRetries :: int
  hc_retryBase :: int
  hc_pollInterval :: int
  hc_recoveryGrace :: int
  hc_recoveryPollEvery :: int
  hc_recoveryMax :: int

type_synonym client_option = "http_client \<Rightarrow> http_client"

definition WithBaseURL :: "string \<Rightarrow> client_option" where
  "WithBaseURL u c = c\<lparr>hc_baseURL := trim_right u (CHR ''/'')\<rparr>"

definition WithConsoleBaseURL :: "string \<Rightarrow> client_option" where
  "WithConsoleBaseURL u c = c\<lparr>hc_consoleBaseURL := trim_right u (CHR ''/'')\<rparr>"

definition WithMaxRetries :: "int \<Rightarrow> client_option" where
  "WithMaxRetries n c = c\<lparr>hc_maxRetries := n\<rparr>"

definition WithRetryBaseDelay :: "int \<Rightarrow> client_option" where
  "WithRetryBaseDelay d c = c\<lparr>hc_retryBase := d\<rparr>"

definition WithQueuePollInterval :: "int \<Rightarrow> client_option" where
  "WithQueuePollInterval d c = c\<lparr>hc_pollInterval := d\<rparr>"

definition WithRecoveryParams :: "int \<Rightarrow> int \<Rightarrow> int \<Rightarrow> client_option" where
  "WithRecoveryParams grace pollEvery maxWait c =
     (let c = (if grace > 0 then c\<lparr>hc_recoveryGrace := grace\<rparr> else c);
          c = (if pollEvery > 0 then c\<lparr>hc_recoveryPollEvery := pollEvery\<rparr> else c)
      in if maxWait > 0 then c\<lparr>hc_recoveryMax := maxWait\<rparr> else c)"

text \<open>\<open>NewClient\<close>: the options in their order, then the console client with the base URL they
  leave.\<close>

definition NewClient :: "credentials \<Rightarrow> client_option list \<Rightarrow> http_client \<times> console" where
  "NewClient creds opts =
     (let c = foldl (\<lambda>c opt. opt c)
        \<lparr>hc_baseURL = DefaultBaseURL, hc_consoleBaseURL = DefaultConsoleBaseURL, hc_creds = creds,
         hc_maxRetries = 3, hc_retryBase = 1 * second, hc_pollInterval = 15 * second,
         hc_recoveryGrace = 30 * second, hc_recoveryPollEvery = 15 * second,
         hc_recoveryMax = 10 * minute\<rparr> opts
      in (c, (newConsoleClient (hc_creds c))\<lparr>con_baseURL := hc_consoleBaseURL c\<rparr>))"

section \<open>One request\<close>

definition api_request :: "http_client \<Rightarrow> string \<Rightarrow> string \<Rightarrow> string option \<Rightarrow> http_request" where
  "api_request hc method path body =
     \<lparr>rq_Method = method, rq_URL = hc_baseURL hc @ path,
      rq_Headers = [(''AuthClientId'', KamateraClientID (hc_creds hc)),
                    (''AuthSecret'', KamateraSecret (hc_creds hc)), (''Accept'', ''application/json'')]
                 @ (if body \<noteq> None then [(''Content-Type'', ''application/json'')] else []),
      rq_Body = body\<rparr>"

text \<open>One attempt of \<open>do\<close>: \<open>Inl\<close> is what \<open>do\<close> returns (a body and an error, either of which
  may be nil), \<open>Inr\<close> is the \<open>lastErr\<close> with which the loop goes on.\<close>

definition do_attempt ::
  "('w, 'z) net_scheme \<Rightarrow> http_client \<Rightarrow> string \<Rightarrow> string \<Rightarrow> string option \<Rightarrow> 'w
     \<Rightarrow> ((string \<times> goerr option) + goerr) \<times> 'w" where
  "do_attempt net hc method path body w =
     (case net_ParseURL net (hc_baseURL hc @ path) of
        Some err \<Rightarrow> (Inl ([], Some err), w)
      | None \<Rightarrow>
     (case net_Do net (api_request hc method path body) w of
        (Inl msg, w1) \<Rightarrow> (Inr (redactErr msg), w1)
      | (Inr resp, w1) \<Rightarrow>
          if success_code (rs_StatusCode resp) then (Inl (rs_Body resp, None), w1)
          else
            (let statusErr = APIError method path (rs_StatusCode resp) (rs_Body resp)
             in if APIError_Client (rs_StatusCode resp) then (Inl ([], Some statusErr), w1)
                else (Inr statusErr, w1))))"

fun do_loop ::
  "('w, 'z) net_scheme \<Rightarrow> http_client \<Rightarrow> string \<Rightarrow> string \<Rightarrow> string option \<Rightarrow> nat \<Rightarrow> bool \<Rightarrow> int \<Rightarrow> goerr option \<Rightarrow> 'w
     \<Rightarrow> ((string \<times> goerr option) + goerr option) \<times> 'w" where
  "do_loop net hc method path body 0 first delay lastErr w = (Inr lastErr, w)"
| "do_loop net hc method path body (Suc k) first delay lastErr w =
     (case (if first then (None, w) else rt_wait net delay w) of
        (Some err, w1) \<Rightarrow> (Inl ([], Some err), w1)
      | (None, w1) \<Rightarrow>
          (let delay1 = (if first then delay else wrap64 (delay * 3)) in
           case do_attempt net hc method path body w1 of
             (Inl r, w2) \<Rightarrow> (Inl r, w2)
           | (Inr err, w2) \<Rightarrow> do_loop net hc method path body k False delay1 (Some err) w2))"

definition max_attempts :: "http_client \<Rightarrow> bool \<Rightarrow> int" where
  "max_attempts hc retryable = (if retryable then wrap64 (hc_maxRetries hc + 1) else 1)"

text \<open>\<open>do\<close>. Its two results are a pair: with \<open>maxAttempts \<le> 0\<close> both are nil. A nil \<open>lastErr\<close>
  after several attempts does not occur; \<open>Errorf\<close> would not wrap it.\<close>

definition do_request ::
  "('w, 'z) net_scheme \<Rightarrow> http_client \<Rightarrow> string \<Rightarrow> string \<Rightarrow> string option \<Rightarrow> bool \<Rightarrow> 'w
     \<Rightarrow> (string \<times> goerr option) \<times> 'w" where
  "do_request net hc method path body retryable w =
     (let maxAttempts = max_attempts hc retryable in
      case do_loop net hc method path body (nat maxAttempts) True (hc_retryBase hc) None w of
        (Inl r, w1) \<Rightarrow> (r, w1)
      | (Inr lastErr, w1) \<Rightarrow>
          if maxAttempts > 1 then
            (([], Some (case lastErr of
                          Some e \<Rightarrow> Wrapf ''after %d attempts: %w'' [AInt maxAttempts] e
                        | None \<Rightarrow> Errorf ''after %d attempts: %w'' [AInt maxAttempts])), w1)
          else (([], lastErr), w1))"

definition sleepCtx :: "('w, 'z) runtime_scheme \<Rightarrow> int \<Rightarrow> 'w \<Rightarrow> bool \<times> 'w" where
  "sleepCtx rt d w =
     (if d \<le> 0 then (rt_ctx_err rt w = None, w)
      else (case rt_wait rt d w of (Some err, w1) \<Rightarrow> (False, w1) | (None, w1) \<Rightarrow> (True, w1)))"

section \<open>Command ids\<close>

fun first_id :: "(string, json) gomap \<Rightarrow> string list \<Rightarrow> string option" where
  "first_id obj [] = None"
| "first_id obj (k # ks) =
     (case map_of obj k of
        None \<Rightarrow> first_id obj ks
      | Some v \<Rightarrow>
          (case into_strings v of
             Some (x # xs) \<Rightarrow> Some x
           | _ \<Rightarrow> first_id obj ks))"

text \<open>The three shapes in the order in which they are tried; each answers \<^const>\<open>None\<close> to go on
  to the next.\<close>

definition id_from_array :: "json \<Rightarrow> string option" where
  "id_from_array v =
     (case into_raw_list v of
        Some (x # xs) \<Rightarrow>
          (case into_string x [] of
             Some s \<Rightarrow> if s \<noteq> [] then Some s else into_number x []
           | None \<Rightarrow> into_number x [])
      | _ \<Rightarrow> None)"

definition id_from_string :: "json \<Rightarrow> string option" where
  "id_from_string v =
     (case into_string v [] of Some s \<Rightarrow> if s \<noteq> [] then Some s else None | None \<Rightarrow> None)"

definition id_from_object :: "json \<Rightarrow> string option" where
  "id_from_object v =
     (case into_raw_map v of
        None \<Rightarrow> None
      | Some obj \<Rightarrow>
          (case first_id obj [''commandIds'', ''commandIDs'', ''command_ids''] of
             Some x \<Rightarrow> Some x
           | None \<Rightarrow>
               (case map_of obj ''id'' of
                  None \<Rightarrow> None
                | Some x \<Rightarrow> id_from_string x)))"

definition decodeCommandID :: "string \<Rightarrow> goerr + string" where
  "decodeCommandID body =
     (let v = parse_json body in
      case Option.bind v id_from_array of
        Some i \<Rightarrow> Inr i
      | None \<Rightarrow>
     (case Option.bind v id_from_string of
        Some i \<Rightarrow> Inr i
      | None \<Rightarrow>
     (case Option.bind v id_from_object of
        Some i \<Rightarrow> Inr i
      | None \<Rightarrow> Inl (Errorf ''no command id in response: %s'' [AStr (truncate_str body 200)]))))"

section \<open>Operations\<close>

definition TerminateServer ::
  "('w, 'z) net_scheme \<Rightarrow> http_client \<Rightarrow> string \<Rightarrow> 'w \<Rightarrow> (goerr + string) \<times> 'w" where
  "TerminateServer net hc serverID w =
     (if serverID = [] then (Inl (ErrorString ''serverID is empty''), w)
      else
     (let body = print_json (JObj [(''force'', JBool True), (''id'', JStr serverID)]) in
     (case do_request net hc ''POST'' ''/service/server/terminate'' (Some body) True w of
        ((resp, Some err), w1) \<Rightarrow> (Inl err, w1)
      | ((resp, None), w1) \<Rightarrow>
          (case decodeCommandID resp of
             Inl err \<Rightarrow> (Inl (Wrapf ''decode terminate-server response: %w'' [] err), w1)
           | Inr i \<Rightarrow> (Inr i, w1)))))"

definition FindServerByName ::
  "('w, 'z) net_scheme \<Rightarrow> console \<Rightarrow> string \<Rightarrow> token_cache \<Rightarrow> 'w \<Rightarrow> (goerr + server) \<times> token_cache \<times> 'w" where
  "FindServerByName net con name tc w =
     (if name = [] then (Inl (ErrorString ''name is empty''), tc, w)
      else
     (case ListServers net con tc w of
        (Inl err, s) \<Rightarrow> (Inl err, s)
      | (Inr servers, s) \<Rightarrow>
          (case find (\<lambda>srv. srv_Name srv = name) servers of
             Some srv \<Rightarrow> (Inr srv, s)
           | None \<Rightarrow> (Inl (ServerNotFoundError name), s))))"

text \<open>One round of the recovery loop; \<open>start\<close> is when it began, and the clock is read again for
  the progress message.\<close>

definition recover_round ::
  "('w, 'z) net_scheme \<Rightarrow> http_client \<Rightarrow> console \<Rightarrow> string \<Rightarrow> int \<Rightarrow> token_cache \<times> 'w
     \<Rightarrow> ((server \<times> goerr option) + unit) \<times> token_cache \<times> 'w" where
  "recover_round net hc con name deadline s =
     (case FindServerByName net con name (fst s) (snd s) of
        (Inr srv, s1) \<Rightarrow> (Inl (srv, None), s1)
      | (Inl err, tc1, w1) \<Rightarrow>
      if IsClientError (Some err) then
        (Inl (zero_server, Some (Wrapf ''recovery aborted: %w'' [] err)), tc1, w1)
      else
     (case rt_now net w1 of (now, w2) \<Rightarrow>
      if now > deadline then
        (Inl (zero_server, Some (Errorf ''recovery timed out after %s'' [AInt (hc_recoveryMax hc)])), tc1, w2)
      else
     (case rt_now net w2 of (now2, w3) \<Rightarrow>
     (case sleepCtx net (hc_recoveryPollEvery hc) w3 of (slept, w4) \<Rightarrow>
      if \<not> slept then (Inl (zero_server, rt_ctx_err net w4), tc1, w4)
      else (Inr (), tc1, w4)))))"

definition recoverByName ::
  "('w, 'z) net_scheme \<Rightarrow> http_client \<Rightarrow> console \<Rightarrow> string \<Rightarrow> token_cache \<times> 'w
     \<Rightarrow> ((server \<times> goerr option) \<times> token_cache \<times> 'w) option" where
  "recoverByName net hc con name s =
     (case sleepCtx net (hc_recoveryGrace hc) (snd s) of (slept, w1) \<Rightarrow>
      if \<not> slept then Some ((zero_server, rt_ctx_err net w1), fst s, w1)
      else
     (case rt_now net w1 of (start, w2) \<Rightarrow>
        poll (recover_round net hc con name (start + hc_recoveryMax hc)) (fst s, w2)))"

definition CreateServer ::
  "('w, 'z) net_scheme \<Rightarrow> http_client \<Rightarrow> console \<Rightarrow> create_server_request \<Rightarrow> token_cache \<times> 'w
     \<Rightarrow> ((goerr + string) \<times> token_cache \<times> 'w) option" where
  "CreateServer net hc con req s =
     (let body = print_json (create_request_json req) in
     (case do_request net hc ''POST'' ''/service/server'' (Some body) False (snd s) of
        ((resp, None), w1) \<Rightarrow>
          (case decodeCommandID resp of
             Inl err \<Rightarrow> Some (Inl (Wrapf ''decode create-server response: %w'' [] err), fst s, w1)
           | Inr i \<Rightarrow> Some (Inr i, fst s, w1))
      | ((resp, Some err), w1) \<Rightarrow>
          if \<not> IsTransportError (Some err) then Some (Inl err, fst s, w1)
          else
         (case recoverByName net hc con (req_Name req) (fst s, w1) of
            None \<Rightarrow> None
          | Some ((server, None), s2) \<Rightarrow> Some (Inl (ErrCreateRecovered server), s2)
          | Some ((server, Some rerr), s2) \<Rightarrow>
              Some (Inl (Wrapf ''create transport failed and recovery did not find %q in %s: %w''
                      [AStr (req_Name req), AInt (hc_recoveryMax hc)] err), s2))))"

end
