(* ===== verification/JsonFacts.thy ===== *)
theory JsonFacts
  imports Json
begin

text \<open>
  What \<open>Marshal\<close> writes is read back unchanged by the grammar of \<open>Unmarshal\<close>: first strings
  with their escapes, then whole values. The strings must be valid UTF-8 (others are
  written with replacement characters) and the nesting within the scanner's limit.
\<close>

named_theorems json_parse \<open>how the parser reads a printed value\<close>

section \<open>Strings\<close>

function valid_utf8 :: "string \<Rightarrow> bool" where
  "valid_utf8 s =
     (if s = [] then True else if utf8_len s = 0 then False else valid_utf8 (drop (utf8_len s) s))"
  by pat_completeness auto
termination
  by (relation "measure length") auto

declare valid_utf8.simps [simp del]

lemma byte_less: "byte c < 256"
  by (simp add: byte_def of_char_def)

lemma char_of_byte [simp]: "char_of (byte c) = c"
  by (simp add: byte_def)

lemma byte_inj: "byte c = byte d \<longleftrightarrow> c = d"
  by (metis char_of_byte)

text \<open>The length of a rune is determined by its own bytes.\<close>

lemma utf8_len_append:
  assumes "utf8_len s = n" and "n \<noteq> 0"
  shows "utf8_len (take n s @ x) = n \<and> n \<le> length s"
proof -
  have "utf8_len (take n s @ x) = n \<and> n \<le> length s"
    if "s = b0 # t" for b0 t
    using assms that
    by (cases t; cases "tl t"; cases "tl (tl t)")
      (auto simp: utf8_len_def split: if_splits)
  then show ?thesis using assms by (cases s) (auto simp: utf8_len_def)
qed

lemma utf8_len_ascii: "byte c < 0x80 \<Longrightarrow> utf8_len (c # s) = 1"
  by (simp add: utf8_len_def)

lemma prepend_Some [simp]: "prepend xs (Some (t, r)) = Some (xs @ t, r)"
  by (simp add: prepend_def)

lemma hex_value_digit: "n < 16 \<Longrightarrow> hex_value (digit n) = Some n"
proof -
  assume "n < 16"
  then have "n \<in> set [0..<16]" by simp
  then show ?thesis by (auto simp: hex_value_def digit_def upt_rec)
qed

lemma hex4_digits:
  "a < 16 \<Longrightarrow> b < 16 \<Longrightarrow> hex4 (CHR ''0'' # CHR ''0'' # digit a # digit b # s) = Some (a * 16 + b)"
proof -
  have "hex_value (CHR ''0'') = Some 0" by (simp add: hex_value_def upt_rec)
  then show "a < 16 \<Longrightarrow> b < 16 \<Longrightarrow> ?thesis" by (simp add: hex4_def hex_value_digit)
qed

text \<open>One step of the parser on each form that the printer writes.\<close>

lemma parse_string_end [json_parse]: "parse_string (CHR 0x22 # r) = Some ([], r)"
  by (subst parse_string.simps) simp

lemma parse_string_safe:
  assumes "byte c < 0x80" and "html_safe c"
  shows "parse_string (c # r) = prepend [c] (parse_string r)"
proof -
  have "c \<noteq> CHR 0x22" "c \<noteq> CHR 0x5C" "\<not> byte c < 0x20" using assms(2) by (auto simp: html_safe_def)
  then show ?thesis using assms(1) by (subst parse_string.simps) (simp add: utf8_len_ascii)
qed

lemma parse_string_escape:
  assumes "map_of escapes e = Some x" and "e \<noteq> CHR ''u''"
  shows "parse_string (CHR 0x5C # e # r) = prepend [x] (parse_string r)"
  using assms by (subst parse_string.simps) simp

lemma parse_string_unicode:
  assumes "hex4 (h @ r) = Some u" and "length h = 4" and "\<not> is_surrogate u"
  shows "parse_string (CHR 0x5C # CHR ''u'' # h @ r) = prepend (utf8_encode u) (parse_string r)"
  using assms by (subst parse_string.simps) simp

lemma parse_string_rune:
  assumes n: "utf8_len s = n" "n \<noteq> 0" and c: "s = c # t" "\<not> byte c < 0x80"
  shows "parse_string (take n s @ r) = prepend (take n s) (parse_string r)"
proof -
  obtain m where m: "n = Suc m" using n(2) by (cases n) auto
  have l: "utf8_len (take n s @ r) = n" "n \<le> length s" using utf8_len_append[OF n] by auto
  have t: "take n s @ r = c # take m t @ r" by (simp add: c m)
  have "c \<noteq> CHR 0x22" "c \<noteq> CHR 0x5C" using c(2) by (auto simp: byte_def)
  then have "parse_string (take n s @ r) =
      prepend (take n (take n s @ r)) (parse_string (drop n (take n s @ r)))"
    using l(1) n(2) c(2) by (subst parse_string.simps) (simp add: t)
  then show ?thesis using l(2) by simp
qed

lemma escape_byte_parse:
  assumes "byte c < 0x80" and "\<not> html_safe c"
  shows "parse_string (escape_byte c @ r) = prepend [c] (parse_string r)"
proof (cases "c \<in> set [CHR 0x22, CHR 0x5C, CHR 0x08, CHR 0x0C, CHR 0x0A, CHR 0x0D, CHR 0x09]")
  case True
  then obtain e where "escape_byte c = [CHR 0x5C, e]" "map_of escapes e = Some c" "e \<noteq> CHR ''u''"
    by (auto simp: escape_byte_def escapes_def)
  then show ?thesis using parse_string_escape by simp
next
  case False
  then have e: "escape_byte c = [CHR 0x5C, CHR ''u'', CHR ''0'', CHR ''0'', digit (byte c div 16), digit (byte c mod 16)]"
    by (simp add: escape_byte_def)
  have d: "byte c div 16 < 16" "byte c mod 16 < 16" using byte_less[of c] by auto
  have h: "hex4 ([CHR ''0'', CHR ''0'', digit (byte c div 16), digit (byte c mod 16)] @ r) = Some (byte c)"
    using hex4_digits[OF d, of r] by simp
  have "\<not> is_surrogate (byte c)" using assms(1) by (simp add: is_surrogate_def)
  from parse_string_unicode[OF h _ this] have
    "parse_string (escape_byte c @ r) = prepend (utf8_encode (byte c)) (parse_string r)"
    by (simp add: e)
  then show ?thesis using assms(1) by (simp add: utf8_encode_def)
qed

text \<open>The two separators that are escaped for JavaScript.\<close>

lemma separators_parse:
  "parse_string (CHR 0x5C # ''u2028'' @ r) = prepend [CHR 0xE2, CHR 0x80, CHR 0xA8] (parse_string r)"
  "parse_string (CHR 0x5C # ''u2029'' @ r) = prepend [CHR 0xE2, CHR 0x80, CHR 0xA9] (parse_string r)"
proof -
  have h: "hex4 (''2028'' @ r) = Some 0x2028" "hex4 (''2029'' @ r) = Some 0x2029"
  proof -
    have "hex_value (CHR ''2'') = Some 2" "hex_value (CHR ''0'') = Some 0"
      "hex_value (CHR ''8'') = Some 8" "hex_value (CHR ''9'') = Some 9" by code_simp+
    then show "hex4 (''2028'' @ r) = Some 0x2028" "hex4 (''2029'' @ r) = Some 0x2029"
      by (simp_all add: hex4_def)
  qed
  have e: "utf8_encode 0x2028 = [CHR 0xE2, CHR 0x80, CHR 0xA8]" "utf8_encode 0x2029 = [CHR 0xE2, CHR 0x80, CHR 0xA9]"
  proof -
    have "byte (CHR 0xE2) = 226" "byte (CHR 0x80) = 128" "byte (CHR 0xA8) = 168" "byte (CHR 0xA9) = 169"
      by (simp_all add: byte_def)
    then have "char_of (226::nat) = CHR 0xE2" "char_of (128::nat) = CHR 0x80"
      "char_of (168::nat) = CHR 0xA8" "char_of (169::nat) = CHR 0xA9"
      by (metis char_of_byte)+
    then show "utf8_encode 0x2028 = [CHR 0xE2, CHR 0x80, CHR 0xA8]"
      "utf8_encode 0x2029 = [CHR 0xE2, CHR 0x80, CHR 0xA9]" by (simp_all add: utf8_encode_def)
  qed
  show "parse_string (CHR 0x5C # ''u2028'' @ r) = prepend [CHR 0xE2, CHR 0x80, CHR 0xA8] (parse_string r)"
    using parse_string_unicode[OF h(1)] by (simp add: e is_surrogate_def)
  show "parse_string (CHR 0x5C # ''u2029'' @ r) = prepend [CHR 0xE2, CHR 0x80, CHR 0xA9] (parse_string r)"
    using parse_string_unicode[OF h(2)] by (simp add: e is_surrogate_def)
qed

lemma utf8_len_separator: "prefix [CHR 0xE2, CHR 0x80, x] s \<Longrightarrow> utf8_len s \<in> {0, 3}"
proof -
  have b: "byte (CHR 0xE2) = 0xE2" by (simp add: byte_def)
  assume "prefix [CHR 0xE2, CHR 0x80, x] s"
  then obtain t where s: "s = CHR 0xE2 # CHR 0x80 # x # t" by (auto simp: prefix_def)
  have "map byte (take 4 s) = 0xE2 # byte (CHR 0x80) # byte x # map byte (take 1 t)"
    by (simp add: s b)
  then show ?thesis unfolding utf8_len_def by simp
qed

lemma parse_quoted [json_parse]:
  "valid_utf8 s \<Longrightarrow> parse_string (quote_body s @ CHR 0x22 # r) = Some (s, r)"
proof (induction s rule: quote_body.induct)
  case (1 s)
  show ?case
  proof (cases s)
    case Nil
    then show ?thesis by (subst quote_body.simps) (simp add: parse_string_end)
  next
    case (Cons c t)
    let ?n = "utf8_len s"
    have v: "?n \<noteq> 0" "valid_utf8 (drop ?n s)"
      using "1.prems" Cons valid_utf8.simps[of s] by (auto split: if_splits)
    show ?thesis
    proof (cases "byte c < 0x80")
      case True
      then have "?n = 1" by (simp add: Cons utf8_len_ascii)
      then have vt: "valid_utf8 t" using v by (simp add: Cons)
      have q: "quote_body (c # t) = (if html_safe c then c # quote_body t else escape_byte c @ quote_body t)"
        using True by (subst quote_body.simps) (simp add: Cons)
      have IH: "parse_string (quote_body t @ CHR 0x22 # r) = Some (t, r)"
        using "1.IH"(1,2)[OF Cons True] vt by blast
      show ?thesis
        using parse_string_safe[OF True] escape_byte_parse[OF True] IH by (simp add: q Cons)
    next
      case False
      consider (ls) "prefix [CHR 0xE2, CHR 0x80, CHR 0xA8] s" | (ps) "prefix [CHR 0xE2, CHR 0x80, CHR 0xA9] s"
        | (other) "\<not> prefix [CHR 0xE2, CHR 0x80, CHR 0xA8] s" "\<not> prefix [CHR 0xE2, CHR 0x80, CHR 0xA9] s"
        by blast
      then show ?thesis
      proof cases
        case ls
        then have n: "?n = 3" using utf8_len_separator[OF ls] v(1) by auto
        have q: "quote_body s = CHR 0x5C # ''u2028'' @ quote_body (drop 3 s)"
          using False v(1) ls by (subst quote_body.simps) (simp add: Cons)
        have s: "s = [CHR 0xE2, CHR 0x80, CHR 0xA8] @ drop 3 s" using ls by (auto simp: prefix_def)
        have "parse_string (quote_body (drop 3 s) @ CHR 0x22 # r) = Some (drop 3 s, r)"
          using "1.IH"(4)[OF Cons False v(1) ls] v(2) n by simp
        then show ?thesis using separators_parse(1) s by (simp add: q)
      next
        case ps
        then have n: "?n = 3" using utf8_len_separator[OF ps] v(1) by auto
        have nls: "\<not> prefix [CHR 0xE2, CHR 0x80, CHR 0xA8] s" using ps by (auto simp: prefix_def)
        have q: "quote_body s = CHR 0x5C # ''u2029'' @ quote_body (drop 3 s)"
          using False v(1) ps nls by (subst quote_body.simps) (simp add: Cons)
        have s: "s = [CHR 0xE2, CHR 0x80, CHR 0xA9] @ drop 3 s" using ps by (auto simp: prefix_def)
        have "parse_string (quote_body (drop 3 s) @ CHR 0x22 # r) = Some (drop 3 s, r)"
          using "1.IH"(5)[OF Cons False v(1) nls ps] v(2) n by simp
        then show ?thesis using separators_parse(2) s by (simp add: q)
      next
        case other
        have q: "quote_body s = take ?n s @ quote_body (drop ?n s)"
          using False v(1) other by (subst quote_body.simps) (auto simp: Cons)
        have "parse_string (quote_body (drop ?n s) @ CHR 0x22 # r) = Some (drop ?n s, r)"
          using "1.IH"(6)[OF Cons False v(1) other] v(2) by simp
        then show ?thesis using parse_string_rune[OF refl v(1) Cons False] by (simp add: q)
      qed
    qed
  qed
qed

section \<open>Values\<close>

text \<open>The values that are written in full: valid numbers and strings, nested at most \<open>d\<close> deep.\<close>

fun wf_json :: "int \<Rightarrow> json \<Rightarrow> bool" where
  "wf_json d JNull = True"
| "wf_json d (JBool b) = True"
| "wf_json d (JNum lit) = isValidNumber lit"
| "wf_json d (JStr s) = valid_utf8 s"
| "wf_json d (JArr vs) = (0 < d \<and> list_all (wf_json (d - 1)) vs)"
| "wf_json d (JObj ms) = (0 < d \<and> list_all (\<lambda>(k, v). valid_utf8 k \<and> wf_json (d - 1) v) ms)"

lemma number_char_digit: "is_digit c \<Longrightarrow> number_char c"
  by (simp add: number_char_def)

lemma skip_digits_chars: "list_all number_char (skip_digits s) \<Longrightarrow> list_all number_char s"
  by (induction s) (auto simp: skip_digits_def number_char_digit split: if_splits)

lemma number_exp_chars:
  assumes "number_exp s = Some []"
  shows "list_all number_char s"
proof (cases s)
  case Nil
  then show ?thesis by simp
next
  case (Cons c t)
  show ?thesis
  proof (cases t)
    case Nil
    then show ?thesis using assms Cons by (simp add: number_exp_def)
  next
    fix d r
    assume t: "t = d # r"
    have sk: "skip_digits x = [] \<Longrightarrow> list_all number_char x" for x using skip_digits_chars[of x] by simp
    show ?thesis
      using assms sk[of r] sk[of t]
      by (auto simp: number_exp_def Cons t number_char_def split: if_splits)
  qed
qed

lemma number_frac_chars: "list_all number_char (number_frac s) \<Longrightarrow> list_all number_char s"
proof -
  assume a: "list_all number_char (number_frac s)"
  show ?thesis
  proof (cases s)
    case (Cons c t)
    then show ?thesis
      using a skip_digits_chars[of "tl t"]
      by (cases t) (auto simp: number_frac_def number_char_def split: if_splits)
  qed simp
qed

lemma number_int_chars:
  assumes "number_int s = Some r" and "list_all number_char r"
  shows "list_all number_char s \<and> s \<noteq> [] \<and> is_digit (hd s)"
  using assms skip_digits_chars[of "tl s"]
  by (cases s) (auto simp: number_int_def number_char_def is_digit_def byte_def split: if_splits)

lemma valid_number_chars:
  assumes "isValidNumber lit"
  shows "list_all number_char lit \<and> lit \<noteq> [] \<and> (is_digit (hd lit) \<or> hd lit = CHR ''-'')"
proof -
  let ?s = "case lit of [] \<Rightarrow> [] | c # r \<Rightarrow> if c = CHR ''-'' then r else lit"
  obtain r where i: "number_int ?s = Some r" and e: "number_exp (number_frac r) = Some []"
    using assms by (auto simp: isValidNumber_def Let_def split: option.splits)
  have "list_all number_char ?s \<and> ?s \<noteq> [] \<and> is_digit (hd ?s)"
    using number_int_chars[OF i] number_frac_chars number_exp_chars[OF e] by blast
  then show ?thesis by (cases lit) (auto simp: number_char_def split: if_splits)
qed

text \<open>The end of a number: what follows a value in a text.\<close>

definition value_end :: "string \<Rightarrow> bool" where
  "value_end r = (r = [] \<or> \<not> number_char (hd r))"

lemma value_end_delim [simp]:
  "value_end (CHR '','' # r)" "value_end (CHR '']'' # r)" "value_end (CHR ''}'' # r)" "value_end []"
  by (simp_all add: value_end_def number_char_def is_digit_def byte_def)

lemma parse_number_print:
  assumes "isValidNumber lit" and "value_end r"
  shows "parse_number (lit @ r) = Some (JNum lit, r)"
proof -
  have "list_all number_char lit" using valid_number_chars[OF assms(1)] by blast
  then have "takeWhile number_char (lit @ r) = lit" "dropWhile number_char (lit @ r) = r"
    using assms(2) by (cases r; simp add: list_all_iff value_end_def)+
  then show ?thesis using assms(1) by (simp add: parse_number_def)
qed

lemma digit_not_special:
  assumes "is_digit c \<or> c = CHR ''-''"
  shows "\<not> is_ws c" "c \<notin> set [CHR ''{'', CHR ''['', CHR 0x22, CHR ''t'', CHR ''f'', CHR ''n'', CHR '']'']"
  using assms by (auto simp: is_ws_def is_digit_def byte_def)

text \<open>A printed value starts with neither white space nor a closing bracket.\<close>

lemma print_json_start:
  assumes "wf_json d v"
  shows "\<exists>c t. print_json v = c # t \<and> \<not> is_ws c \<and> c \<noteq> CHR '']''"
proof (cases v)
  case (JNum lit)
  then obtain c t where "lit = c # t" "is_digit c \<or> c = CHR ''-''"
    using assms valid_number_chars[of lit] by (cases lit) auto
  with JNum digit_not_special[of c] show ?thesis by auto
qed (auto simp: is_ws_def quote_def)

lemma print_json_length: "wf_json d v \<Longrightarrow> 1 \<le> length (print_json v)"
  using print_json_start by fastforce

lemma expect_start:
  "\<not> is_ws c \<Longrightarrow> expect x (c # t) = (if c = x then Some t else None)"
  by (simp add: expect_def skip_ws_def)

lemma delim_not_ws [simp]:
  "\<not> is_ws (CHR '','')" "\<not> is_ws (CHR '']'')" "\<not> is_ws (CHR ''}'')" "\<not> is_ws (CHR '':'')" "\<not> is_ws (CHR 0x22)"
  "\<not> is_ws (CHR ''['')" "\<not> is_ws (CHR ''{'')"
  by (simp_all add: is_ws_def)

definition prints_back :: "json \<Rightarrow> bool" where
  "prints_back v =
     (\<forall>f d r. wf_json d v \<longrightarrow> 2 * length (print_json v) \<le> f \<longrightarrow> value_end r \<longrightarrow>
        parse_value f d (print_json v @ r) = Some (v, r))"

lemma prints_backD:
  "prints_back v \<Longrightarrow> wf_json d v \<Longrightarrow> 2 * length (print_json v) \<le> f \<Longrightarrow> value_end r \<Longrightarrow>
     parse_value f d (print_json v @ r) = Some (v, r)"
  by (simp add: prints_back_def)

lemma parse_elems_print:
  assumes "\<And>v. v \<in> set vs \<Longrightarrow> prints_back v" and "list_all (wf_json d) vs" and "vs \<noteq> []"
    and "2 * length (join (map print_json vs) '','') + 2 \<le> f"
  shows "parse_elems f d (join (map print_json vs) '','' @ CHR '']'' # r) = Some (vs, r)"
  using assms
proof (induction vs arbitrary: f)
  case Nil
  then show ?case by simp
next
  case (Cons v vs)
  obtain g where f: "f = Suc g" using Cons.prems(4) by (cases f) auto
  have pv: "prints_back v" "wf_json d v" using Cons.prems by auto
  show ?case
  proof (cases vs)
    case Nil
    then show ?thesis
      using prints_backD[OF pv, of g "CHR '']'' # r"] Cons.prems(4) by (simp add: f expect_start)
  next
    fix u us
    assume vs: "vs = u # us"
    let ?tail = "join (map print_json vs) '','' @ CHR '']'' # r"
    have len: "2 * length (print_json v) \<le> g" "2 * length (join (map print_json vs) '','') + 2 \<le> g"
      using Cons.prems(4) print_json_length[OF pv(2)] by (auto simp: f vs)
    have "parse_value g d (print_json v @ CHR '','' # ?tail) = Some (v, CHR '','' # ?tail)"
      by (rule prints_backD[OF pv len(1)]) simp
    moreover have "parse_elems g d ?tail = Some (vs, r)"
      using Cons.IH[OF _ _ _ len(2)] Cons.prems vs by auto
    ultimately show ?thesis by (simp add: f vs expect_start)
  qed
qed

definition print_member :: "string \<times> json \<Rightarrow> string" where
  "print_member m = (case m of (k, v) \<Rightarrow> quote k @ '':'' @ print_json v)"

lemma parse_members_print:
  assumes "\<And>k v. (k, v) \<in> set ms \<Longrightarrow> prints_back v"
    and "list_all (\<lambda>(k, v). valid_utf8 k \<and> wf_json d v) ms" and "ms \<noteq> []"
    and "2 * length (join (map print_member ms) '','') + 2 \<le> f"
  shows "parse_members f d (join (map print_member ms) '','' @ CHR ''}'' # r) = Some (ms, r)"
  using assms
proof (induction ms arbitrary: f)
  case Nil
  then show ?case by simp
next
  case (Cons m ms)
  obtain k v where m: "m = (k, v)" by fastforce
  obtain g where f: "f = Suc g" using Cons.prems(4) by (cases f) auto
  have pv: "prints_back v" "wf_json d v" and k: "valid_utf8 k" using Cons.prems m by auto
  have head: "parse_members f d (print_member m @ x) =
      (case parse_value g d (print_json v @ x) of
         None \<Rightarrow> None
       | Some (v, r3) \<Rightarrow>
           (case expect (CHR ''}'') r3 of
              Some r4 \<Rightarrow> Some ([(k, v)], r4)
            | None \<Rightarrow>
                (case expect (CHR '','') r3 of
                   None \<Rightarrow> None
                 | Some r4 \<Rightarrow> map_option (\<lambda>(ms, r5). ((k, v) # ms, r5)) (parse_members g d r4))))" for x
    by (simp add: f m print_member_def quote_def expect_start parse_quoted[OF k])
  show ?case
  proof (cases ms)
    case Nil
    then show ?thesis
      using prints_backD[OF pv, of g "CHR ''}'' # r"] Cons.prems(4) head[of "CHR ''}'' # r"]
      by (simp add: f m expect_start print_member_def)
  next
    fix u us
    assume ms: "ms = u # us"
    let ?tail = "join (map print_member ms) '','' @ CHR ''}'' # r"
    have "length (print_member m) = length (quote k) + 1 + length (print_json v)"
      by (simp add: m print_member_def)
    then have len: "2 * length (print_json v) \<le> g" "2 * length (join (map print_member ms) '','') + 2 \<le> g"
      using Cons.prems(4) by (auto simp: f ms)
    have "parse_value g d (print_json v @ CHR '','' # ?tail) = Some (v, CHR '','' # ?tail)"
      by (rule prints_backD[OF pv len(1)]) simp
    moreover have "parse_members g d ?tail = Some (ms, r)"
      using Cons.IH[OF _ _ _ len(2)] Cons.prems ms by auto
    ultimately show ?thesis using head[of "CHR '','' # ?tail"] by (simp add: m ms expect_start)
  qed
qed

lemma literal_words:
  "8 \<le> f \<Longrightarrow> parse_value f d (CHR ''n'' # CHR ''u'' # CHR ''l'' # CHR ''l'' # r) = Some (JNull, r)"
  "8 \<le> f \<Longrightarrow> parse_value f d (CHR ''t'' # CHR ''r'' # CHR ''u'' # CHR ''e'' # r) = Some (JBool True, r)"
  "10 \<le> f \<Longrightarrow> parse_value f d (CHR ''f'' # CHR ''a'' # CHR ''l'' # CHR ''s'' # CHR ''e'' # r)
     = Some (JBool False, r)"
  by (cases f; simp add: literal_def skip_ws_def is_ws_def)+

lemma prints_back_all: "prints_back v"
proof (induction v)
  case (JNum lit)
  have "parse_value f d (lit @ r) = Some (JNum lit, r)"
    if vn: "isValidNumber lit" and lf: "2 * length lit \<le> f" and ve: "value_end r" for f d r
  proof -
    obtain c t where c: "lit = c # t" "is_digit c \<or> c = CHR ''-''"
      using valid_number_chars[OF vn] by (cases lit) auto
    obtain g where "f = Suc g" using lf c(1) by (cases f) auto
    then show ?thesis
      using parse_number_print[OF vn ve] digit_not_special[OF c(2)] by (simp add: c skip_ws_def)
  qed
  then show ?case by (simp add: prints_back_def)
next
  case (JStr s)
  have "parse_value f d (quote s @ r) = Some (JStr s, r)" if "valid_utf8 s" "2 * length (quote s) \<le> f" for f d r
    using that by (cases f) (auto simp: quote_def skip_ws_def parse_quoted)
  then show ?case by (simp add: prints_back_def)
next
  case (JArr vs)
  have "parse_value f d (print_json (JArr vs) @ r) = Some (JArr vs, r)"
    if wf: "0 < d" "list_all (wf_json (d - 1)) vs" and len: "2 * length (print_json (JArr vs)) \<le> f" for f d r
  proof -
    obtain g where f: "f = Suc g" using len by (cases f) auto
    show ?thesis
    proof (cases vs)
      case Nil
      then show ?thesis using wf by (simp add: f skip_ws_def expect_start)
    next
      case (Cons v us)
      have g: "2 * length (join (map print_json vs) '','') + 2 \<le> g" using len by (simp add: f)
      have e: "parse_elems g (d - 1) (join (map print_json vs) '','' @ CHR '']'' # r) = Some (vs, r)"
        by (rule parse_elems_print[OF JArr wf(2) _ g]) (simp_all add: Cons)
      obtain c t where "print_json v = c # t" "\<not> is_ws c" "c \<noteq> CHR '']''"
        using print_json_start[of "d - 1" v] wf(2) Cons by auto
      then have "expect (CHR '']'') (join (map print_json vs) '','' @ CHR '']'' # r) = None"
        by (cases us) (simp_all add: Cons expect_start)
      then show ?thesis using wf(1) e by (simp add: f skip_ws_def)
    qed
  qed
  then show ?case by (simp add: prints_back_def del: print_json.simps)
next
  case (JObj ms)
  have pm: "(\<lambda>(k, v). quote k @ CHR '':'' # print_json v) = print_member"
    by (auto simp: print_member_def)
  have "parse_value f d (print_json (JObj ms) @ r) = Some (JObj ms, r)"
    if wf: "0 < d" "list_all (\<lambda>(k, v). valid_utf8 k \<and> wf_json (d - 1) v) ms"
      and len: "2 * length (print_json (JObj ms)) \<le> f" for f d r
  proof -
    obtain g where f: "f = Suc g" using len by (cases f) auto
    show ?thesis
    proof (cases ms)
      case Nil
      then show ?thesis using wf by (simp add: f skip_ws_def expect_start)
    next
      case (Cons m us)
      have g: "2 * length (join (map print_member ms) '','') + 2 \<le> g" using len by (simp add: f pm)
      have "prints_back v" if "(k, v) \<in> set ms" for k v
        using JObj that by fastforce
      then have e: "parse_members g (d - 1) (join (map print_member ms) '','' @ CHR ''}'' # r) = Some (ms, r)"
        by (rule parse_members_print[OF _ wf(2) _ g]) (simp_all add: Cons)
      have "expect (CHR ''}'') (join (map print_member ms) '','' @ CHR ''}'' # r) = None"
        by (cases us; cases m) (simp_all add: Cons expect_start print_member_def quote_def)
      then show ?thesis using wf(1) e by (simp add: f skip_ws_def pm)
    qed
  qed
  then show ?case by (simp add: prints_back_def del: print_json.simps)
qed (auto simp: prints_back_def literal_words)

text \<open>The round trip of a whole text.\<close>

lemma parse_print: "wf_json 10000 v \<Longrightarrow> parse_json (print_json v) = Some v"
  using prints_backD[OF prints_back_all, of 10000 v "Suc (2 * length (print_json v))" "[]"]
  by (simp add: parse_json_def skip_ws_def)

section \<open>Printed integers\<close>

lemma is_digit_digit: "n < 10 \<Longrightarrow> is_digit (digit n)"
proof -
  assume "n < 10"
  then have "n \<in> set [0..<10]" by simp
  then show ?thesis by (auto simp: is_digit_def digit_def byte_def upt_rec)
qed

lemma show_nat_digits: "list_all is_digit (show_nat n)"
proof (induction n rule: show_nat.induct)
  case (1 n)
  show ?case
  proof (cases "n < 10")
    case True
    then show ?thesis by (subst show_nat.simps) (simp add: is_digit_digit)
  next
    case False
    then show ?thesis using 1 by (subst show_nat.simps) (simp add: is_digit_digit)
  qed
qed

lemma show_nat_start: "0 < n \<Longrightarrow> \<exists>c t. show_nat n = c # t \<and> c \<noteq> CHR ''0''"
proof (induction n rule: show_nat.induct)
  case (1 n)
  show ?case
  proof (cases "n < 10")
    case True
    then have "n \<in> set [1..<10]" using 1 by simp
    then have "digit n \<noteq> CHR ''0''" by (auto simp: digit_def upt_rec)
    then show ?thesis using True by (subst show_nat.simps) simp
  next
    case False
    then obtain c t where "show_nat (n div 10) = c # t" "c \<noteq> CHR ''0''" using 1 by fastforce
    then show ?thesis using False by (subst show_nat.simps) simp
  qed
qed

lemma skip_all_digits: "list_all is_digit s \<Longrightarrow> skip_digits s = []"
  by (simp add: skip_digits_def list_all_iff)

lemma number_int_show_nat: "number_int (show_nat n) = Some []"
proof (cases "n = 0")
  case True
  then have "show_nat n = [CHR ''0'']" by (subst show_nat.simps) (simp add: digit_def)
  then show ?thesis by (simp add: number_int_def)
next
  case False
  then obtain c t where c: "show_nat n = c # t" "c \<noteq> CHR ''0''" using show_nat_start by blast
  have "list_all is_digit (c # t)" using show_nat_digits[of n] by (simp add: c)
  then show ?thesis using c(2) skip_all_digits[of t] unfolding c(1) by (simp add: number_int_def)
qed

lemma show_nat_no_minus: "\<exists>c t. show_nat n = c # t \<and> c \<noteq> CHR ''-''"
  using show_nat_no_dash[of n] show_nat_not_Nil[of n] by (cases "show_nat n") auto

lemma valid_show_int [json_parse]: "isValidNumber (show_int n)"
proof -
  obtain c t where c: "show_nat (nat n) = c # t" "c \<noteq> CHR ''-''" using show_nat_no_minus by blast
  have "number_int (case show_int n of [] \<Rightarrow> [] | c # r \<Rightarrow> if c = CHR ''-'' then r else show_int n) = Some []"
    using number_int_show_nat[of "nat n"] number_int_show_nat[of "nat (- n)"] c
    by (auto simp: show_int_def)
  then show ?thesis by (simp add: isValidNumber_def number_frac_def number_exp_def)
qed

end
