(* ===== verification/Traffic.thy ===== *)
theory Traffic
  imports Client JsonFacts
begin

text \<open>
  Facts about the Kamatera clients, stated over the exchanges they have with the API: which
  requests an operation sends, how often, and after which answers; when the recovery loop
  returns and what it finds; what the token cache holds.
\<close>

section \<open>Exchanges\<close>

type_synonym exchange = "http_request \<times> (string + http_response)"

text \<open>\<open>log\<close> records the exchanges of the caller at hand, in their order.\<close>

definition logs_exchanges :: "('w \<Rightarrow> exchange list) \<Rightarrow> ('w, 'z) net_scheme \<Rightarrow> bool" where
  "logs_exchanges log net =
     ((\<forall>rq w. log (snd (net_Do net rq w)) = log w @ [(rq, fst (net_Do net rq w))])
      \<and> (\<forall>w. log (snd (rt_now net w)) = log w)
      \<and> (\<forall>d w. log (snd (rt_wait net d w)) = log w)
      \<and> (\<forall>tc w. log (snd (net_others net tc w)) = log w))"

lemma logs_Do: "logs_exchanges log net \<Longrightarrow> net_Do net rq w = (r, w') \<Longrightarrow> log w' = log w @ [(rq, r)]"
  unfolding logs_exchanges_def by (metis fst_conv snd_conv)

lemma logs_now: "logs_exchanges log net \<Longrightarrow> rt_now net w = (t, w') \<Longrightarrow> log w' = log w"
  unfolding logs_exchanges_def by (metis snd_conv)

lemma logs_wait: "logs_exchanges log net \<Longrightarrow> rt_wait net d w = (e, w') \<Longrightarrow> log w' = log w"
  unfolding logs_exchanges_def by (metis snd_conv)

lemma logs_others: "logs_exchanges log net \<Longrightarrow> net_others net tc w = (tc', w') \<Longrightarrow> log w' = log w"
  unfolding logs_exchanges_def by (metis snd_conv)

lemmas logs = logs_Do logs_now logs_wait logs_others

section \<open>Requests to cloudcli\<close>

text \<open>An answer after which \<open>do\<close> tries again, and the error that it remembers.\<close>

definition retried :: "string + http_response \<Rightarrow> bool" where
  "retried r =
     (case r of Inl msg \<Rightarrow> True
      | Inr resp \<Rightarrow> \<not> success_code (rs_StatusCode resp) \<and> \<not> APIError_Client (rs_StatusCode resp))"

definition result_error :: "string \<Rightarrow> string \<Rightarrow> string + http_response \<Rightarrow> goerr" where
  "result_error method path r =
     (case r of Inl msg \<Rightarrow> redactErr msg
      | Inr resp \<Rightarrow> APIError method path (rs_StatusCode resp) (rs_Body resp))"

lemma do_attempt_cases:
  assumes "do_attempt net hc m p b w = (out, w')"
  obtains (url) err where "net_ParseURL net (hc_baseURL hc @ p) = Some err" "out = Inl ([], Some err)" "w' = w"
  | (again) r where "net_Do net (api_request hc m p b) w = (r, w')" "retried r" "out = Inr (result_error m p r)"
  | (ok) resp where "net_Do net (api_request hc m p b) w = (Inr resp, w')"
      "success_code (rs_StatusCode resp)" "out = Inl (rs_Body resp, None)"
  | (client) resp where "net_Do net (api_request hc m p b) w = (Inr resp, w')"
      "APIError_Client (rs_StatusCode resp)"
      "out = Inl ([], Some (APIError m p (rs_StatusCode resp) (rs_Body resp)))"
proof (cases "net_ParseURL net (hc_baseURL hc @ p)")
  case (Some err)
  then show ?thesis using assms url by (auto simp: do_attempt_def)
next
  case None
  obtain r w1 where d: "net_Do net (api_request hc m p b) w = (r, w1)" by fastforce
  show ?thesis
  proof (cases r)
    case (Inl msg)
    then show ?thesis
      using assms None d again[of r] by (auto simp: do_attempt_def retried_def result_error_def)
  next
    case (Inr resp)
    then show ?thesis
      using assms None d again[of r] ok[of resp] client[of resp]
      by (auto simp: do_attempt_def retried_def result_error_def Let_def split: if_splits)
  qed
qed

text \<open>How the loop ends, by the answers \<open>rs\<close> it got.\<close>

definition loop_result ::
  "string \<Rightarrow> string \<Rightarrow> nat \<Rightarrow> goerr option \<Rightarrow> (string + http_response) list
     \<Rightarrow> ((string \<times> goerr option) + goerr option) \<Rightarrow> bool" where
  "loop_result m p k last_err rs out =
     (length rs \<le> k \<and> list_all retried (butlast rs) \<and>
      (case out of
         Inr l \<Rightarrow> length rs = k \<and> list_all retried rs
                  \<and> l = (if rs = [] then last_err else Some (result_error m p (last rs)))
       | Inl (body, None) \<Rightarrow> rs \<noteq> [] \<and> (\<exists>resp. last rs = Inr resp \<and> success_code (rs_StatusCode resp)
                               \<and> body = rs_Body resp)
       | Inl (body, Some e) \<Rightarrow> list_all retried rs
            \<or> (rs \<noteq> [] \<and> (\<exists>resp. last rs = Inr resp \<and> APIError_Client (rs_StatusCode resp)
                 \<and> e = APIError m p (rs_StatusCode resp) (rs_Body resp)))))"

lemma loop_result_Cons:
  assumes "retried r" and "loop_result m p k (Some (result_error m p r)) rs out"
  shows "loop_result m p (Suc k) l (r # rs) out"
  using assms
  by (cases out) (auto simp: loop_result_def split: prod.splits option.splits if_splits)

lemma do_loop_log:
  assumes L: "logs_exchanges log net"
    and "do_loop net hc m p b k first delay l w = (out, w')"
  shows "\<exists>rs. log w' = log w @ map (Pair (api_request hc m p b)) rs \<and> loop_result m p k l rs out"
  using assms(2)
proof (induction k arbitrary: first delay l w)
  case 0
  then show ?case by (intro exI[of _ "[]"]) (auto simp: loop_result_def)
next
  case (Suc k)
  let ?rq = "api_request hc m p b"
  obtain e w1 where wait: "(if first then (None, w) else rt_wait net delay w) = (e, w1)" by fastforce
  then have log1: "log w1 = log w" using logs_wait[OF L] by (auto split: if_splits)
  show ?case
  proof (cases e)
    case (Some err)
    then have "out = Inl ([], Some err)" "w' = w1" using Suc.prems wait by auto
    then show ?thesis using log1 by (intro exI[of _ "[]"]) (auto simp: loop_result_def)
  next
    case None
    obtain x w2 where a: "do_attempt net hc m p b w1 = (x, w2)" by fastforce
    show ?thesis
      using a
    proof (cases rule: do_attempt_cases)
      case (url err)
      then have "out = Inl ([], Some err)" "w' = w1" using Suc.prems wait None a by auto
      then show ?thesis using log1 by (intro exI[of _ "[]"]) (auto simp: loop_result_def)
    next
      case (again r)
      then have "do_loop net hc m p b k False (if first then delay else wrap64 (delay * 3))
          (Some (result_error m p r)) w2 = (out, w')"
        using Suc.prems wait None a by (simp add: Let_def)
      from Suc.IH[OF this] obtain rs where rs: "log w' = log w2 @ map (Pair ?rq) rs"
        "loop_result m p k (Some (result_error m p r)) rs out" by blast
      have "log w' = log w @ map (Pair ?rq) (r # rs)"
        using rs(1) logs_Do[OF L again(1)] log1 by simp
      then show ?thesis using loop_result_Cons[OF again(2) rs(2)] by blast
    next
      case (ok resp)
      then have "out = Inl (rs_Body resp, None)" "w' = w2" using Suc.prems wait None a by auto
      then show ?thesis
        using log1 logs_Do[OF L ok(1)] ok(2) by (intro exI[of _ "[Inr resp]"]) (auto simp: loop_result_def)
    next
      case (client resp)
      then have "out = Inl ([], Some (APIError m p (rs_StatusCode resp) (rs_Body resp)))" "w' = w2"
        using Suc.prems wait None a by auto
      then show ?thesis
        using log1 logs_Do[OF L client(1)] client(2)
        by (intro exI[of _ "[Inr resp]"]) (auto simp: loop_result_def)
    qed
  qed
qed

text \<open>The same for \<open>do\<close>, whose last step may wrap the error; wrapping keeps its class.\<close>

lemma do_request_log:
  assumes L: "logs_exchanges log net"
    and r: "do_request net hc m p b retry w = ((body, err), w')"
  shows "\<exists>rs. log w' = log w @ map (Pair (api_request hc m p b)) rs
    \<and> int (length rs) \<le> max 0 (max_attempts hc retry) \<and> list_all retried (butlast rs)
    \<and> (err = None \<longrightarrow> rs = [] \<and> max_attempts hc retry \<le> 0 \<and> body = []
         \<or> rs \<noteq> [] \<and> (\<exists>resp. last rs = Inr resp \<and> success_code (rs_StatusCode resp) \<and> body = rs_Body resp))
    \<and> (\<forall>e. err = Some e \<longrightarrow> list_all retried rs
         \<or> rs \<noteq> [] \<and> (\<exists>resp. last rs = Inr resp \<and> APIError_Client (rs_StatusCode resp)
              \<and> e = APIError m p (rs_StatusCode resp) (rs_Body resp)))"
proof -
  let ?n = "max_attempts hc retry"
  obtain out w1 where l: "do_loop net hc m p b (nat ?n) True (hc_retryBase hc) None w = (out, w1)"
    by fastforce
  from do_loop_log[OF L l] obtain rs where rs: "log w1 = log w @ map (Pair (api_request hc m p b)) rs"
    "loop_result m p (nat ?n) None rs out" by blast
  have w': "w' = w1" using r l by (auto simp: do_request_def Let_def split: sum.splits if_splits)
  have "length rs \<le> nat ?n" using rs(2) unfolding loop_result_def by blast
  then have len: "int (length rs) \<le> max 0 ?n" by linarith
  show ?thesis
  proof (cases out)
    case (Inl x)
    then have x: "x = (body, err)" using r l by (simp add: do_request_def Let_def)
    show ?thesis
      using rs len Inl by (intro exI[of _ rs]) (auto simp: w' x loop_result_def split: option.splits)
  next
    case (Inr last_err)
    have "err = None \<longrightarrow> rs = [] \<and> ?n \<le> 0 \<and> body = []"
      using r l Inr rs(2) by (auto simp: do_request_def Let_def loop_result_def split: if_splits)
    then show ?thesis
      using rs len Inr by (intro exI[of _ rs]) (auto simp: w' loop_result_def)
  qed
qed

section \<open>Requests to the console\<close>

definition is_get :: "exchange \<Rightarrow> bool" where
  "is_get x = (rq_Method (fst x) = ''GET'')"

text \<open>The exchanges that reading \<open>path\<close> may have.\<close>

definition console_exchange :: "console \<Rightarrow> string \<Rightarrow> exchange \<Rightarrow> bool" where
  "console_exchange c path x = (fst x = auth_request c \<or> (\<exists>tok. fst x = get_request c tok path))"

lemma request_methods [simp]:
  "rq_Method (auth_request c) = ''POST''" "rq_Method (get_request c tok path) = ''GET''"
  "rq_URL (auth_request c) = con_baseURL c @ ''/authenticate''"
  by (simp_all add: auth_request_def get_request_def)

lemma accept_token_cases:
  "accept_token resp tc = (err, tc') \<Longrightarrow>
     (err = None \<longrightarrow> success_code (rs_StatusCode resp) \<and> tc_token tc' \<noteq> []
        \<and> (\<exists>ar. Unmarshal into_auth_response (rs_Body resp) = Some ar
              \<and> tc' = \<lparr>tc_token = ar_Authentication ar, tc_expiresAt = time_Unix (ar_Expires ar)\<rparr>))
     \<and> (err \<noteq> None \<longrightarrow> tc' = tc)"
  by (auto simp: accept_token_def split: if_splits option.splits)

text \<open>\<open>ensureToken\<close> sends at most one request; without one it succeeds only on a token that is
  valid for thirty seconds more, and a success leaves a token.\<close>

lemma ensureToken_log:
  assumes L: "logs_exchanges log net" and r: "ensureToken net c tc w = (err, tc', w')"
  shows "\<exists>xs. log w' = log w @ xs \<and> length xs \<le> 1 \<and> list_all (\<lambda>x. fst x = auth_request c) xs
    \<and> (err = None \<longrightarrow> tc_token tc' \<noteq> []
         \<and> (xs = [] \<longrightarrow> (\<exists>v now v'. rt_now net v = (now, v') \<and> now + 30 * second < tc_expiresAt tc')))"
proof -
  obtain tc0 w0 where o: "net_others net tc w = (tc0, w0)" by fastforce
  obtain fresh w1 where f: "token_fresh net tc0 w0 = (fresh, w1)" by fastforce
  have l1: "log w1 = log w"
    using f logs_others[OF L o] by (auto simp: token_fresh_def logs_now[OF L] split: if_splits prod.splits)
  show ?thesis
  proof (cases fresh)
    case True
    then have "err = None" "tc' = tc0" "w' = w1" using r o f by (auto simp: ensureToken_def)
    moreover have "tc_token tc0 \<noteq> []"
      "\<exists>now. rt_now net w0 = (now, w1) \<and> now + 30 * second < tc_expiresAt tc0"
      using f True by (auto simp: token_fresh_def split: if_splits prod.splits)
    ultimately show ?thesis using l1 by (intro exI[of _ "[]"]) auto
  next
    case False
    show ?thesis
    proof (cases "net_ParseURL net (con_baseURL c @ ''/authenticate'')")
      case (Some e)
      then have "err = Some e" "w' = w1" using r o f False by (auto simp: ensureToken_def)
      then show ?thesis using l1 by (intro exI[of _ "[]"]) auto
    next
      case None
      obtain x w2 where d: "net_Do net (auth_request c) w1 = (x, w2)" by fastforce
      have w2: "w' = w2" and t: "err = None \<longrightarrow> tc_token tc' \<noteq> []"
        using r o f False None d accept_token_cases
        by (auto simp: ensureToken_def split: sum.splits prod.splits)
      show ?thesis
        using logs_Do[OF L d] l1 w2 t by (intro exI[of _ "[(auth_request c, x)]"]) auto
    qed
  qed
qed

definition answered_401 :: "exchange list \<Rightarrow> bool" where
  "answered_401 xs = (xs = [] \<or> (\<exists>rq resp. xs = [(rq, Inr resp)] \<and> rs_StatusCode resp = 401))"

lemma bearerGetOnce_log:
  assumes L: "logs_exchanges log net" and r: "bearerGetOnce net c path tc w = (out, tc', w')"
  shows "\<exists>xs. log w' = log w @ xs \<and> length xs \<le> 1
    \<and> list_all (\<lambda>x. \<exists>tok. fst x = get_request c tok path) xs
    \<and> ((\<exists>err. out = Inl err \<and> unauthorized err) \<longrightarrow> answered_401 xs)"
proof -
  obtain tc0 w0 where o: "net_others net tc w = (tc0, w0)" by fastforce
  have l0: "log w0 = log w" using logs_others[OF L o] .
  show ?thesis
  proof (cases "net_ParseURL net (con_baseURL c @ path)")
    case (Some e)
    then have "w' = w0" using r o by (auto simp: bearerGetOnce_def)
    then show ?thesis using l0 by (intro exI[of _ "[]"]) (auto simp: answered_401_def)
  next
    case None
    let ?rq = "get_request c (tc_token tc0) path"
    obtain x w1 where d: "net_Do net ?rq w0 = (x, w1)" by fastforce
    have "w' = w1 \<and> (\<forall>err. out = Inl err \<longrightarrow> unauthorized err \<longrightarrow> (\<exists>resp. x = Inr resp \<and> rs_StatusCode resp = 401))"
      using r o None d
      by (cases x) (auto simp: bearerGetOnce_def unauthorized_def split: if_splits)
    then show ?thesis
      using logs_Do[OF L d] l0 by (intro exI[of _ "[(?rq, x)]"]) (auto simp: answered_401_def)
  qed
qed

text \<open>\<open>bearerGet\<close>: what it may send, and that a second read follows a 401 only.\<close>

definition bearer_exchanges :: "console \<Rightarrow> string \<Rightarrow> exchange list \<Rightarrow> bool" where
  "bearer_exchanges c path xs =
     (list_all (console_exchange c path) xs \<and> length (filter is_get xs) \<le> 2
      \<and> length (filter (\<lambda>x. \<not> is_get x) xs) \<le> 2
      \<and> (length (filter is_get xs) = 2 \<longrightarrow>
           (\<exists>resp. snd (hd (filter is_get xs)) = Inr resp \<and> rs_StatusCode resp = 401)))"

lemma filter_auths:
  "list_all (\<lambda>x. fst x = auth_request c) xs \<Longrightarrow>
     filter is_get xs = [] \<and> filter (\<lambda>x. \<not> is_get x) xs = xs \<and> list_all (console_exchange c path) xs"
  by (induction xs) (auto simp: is_get_def console_exchange_def)

lemma filter_gets:
  "list_all (\<lambda>x. \<exists>tok. fst x = get_request c tok path) xs \<Longrightarrow>
     filter is_get xs = xs \<and> filter (\<lambda>x. \<not> is_get x) xs = [] \<and> list_all (console_exchange c path) xs"
  by (induction xs) (auto simp: is_get_def console_exchange_def)

lemma bearerGet_log:
  assumes L: "logs_exchanges log net" and r: "bearerGet net c path tc w = (out, tc', w')"
  shows "\<exists>xs. log w' = log w @ xs \<and> bearer_exchanges c path xs"
proof -
  obtain e1 tc1 w1 where t1: "ensureToken net c tc w = (e1, tc1, w1)" by (metis prod_cases3)
  obtain xs1 where x1: "log w1 = log w @ xs1" "length xs1 \<le> 1" "list_all (\<lambda>x. fst x = auth_request c) xs1"
    using ensureToken_log[OF L t1] by blast
  obtain o2 tc2 w2 where g2: "bearerGetOnce net c path tc1 w1 = (o2, tc2, w2)" by (metis prod_cases3)
  obtain xs2 where x2: "log w2 = log w1 @ xs2" "length xs2 \<le> 1"
    "list_all (\<lambda>x. \<exists>tok. fst x = get_request c tok path) xs2"
    "(\<exists>err. o2 = Inl err \<and> unauthorized err) \<longrightarrow> answered_401 xs2"
    using bearerGetOnce_log[OF L g2] by blast
  obtain tc3 w3 where o3: "net_others net tc2 w2 = (tc3, w3)" by fastforce
  obtain e4 tc4 w4 where t4: "ensureToken net c (tc3\<lparr>tc_token := []\<rparr>) w3 = (e4, tc4, w4)" by (metis prod_cases3)
  obtain xs4 where x4: "log w4 = log w3 @ xs4" "length xs4 \<le> 1" "list_all (\<lambda>x. fst x = auth_request c) xs4"
    using ensureToken_log[OF L t4] by blast
  obtain o5 tc5 w5 where g5: "bearerGetOnce net c path tc4 w4 = (o5, tc5, w5)" by (metis prod_cases3)
  obtain xs5 where x5: "log w5 = log w4 @ xs5" "length xs5 \<le> 1"
    "list_all (\<lambda>x. \<exists>tok. fst x = get_request c tok path) xs5"
    using bearerGetOnce_log[OF L g5] by blast
  have l3: "log w3 = log w2" using logs_others[OF L o3] .
  note f = filter_auths[OF x1(3)] filter_gets[OF x2(3)] filter_auths[OF x4(3)] filter_gets[OF x5(3)]
  have b1: "bearer_exchanges c path xs1" and b2: "bearer_exchanges c path (xs1 @ xs2)"
    using f x1(2) x2(2) by (auto simp: bearer_exchanges_def)
  consider (first) e where "e1 = Some e" | (second) "e1 = None" "\<forall>err. o2 = Inl err \<longrightarrow> \<not> unauthorized err"
    | (again) err where "e1 = None" "o2 = Inl err" "unauthorized err"
    by (cases e1) auto
  then show ?thesis
  proof cases
    case first
    then have "w' = w1" using r t1 by (simp add: bearerGet_def)
    then show ?thesis using x1(1) b1 by blast
  next
    case second
    then have "w' = w2" using r t1 g2 by (cases o2) (auto simp: bearerGet_def)
    then show ?thesis using x1(1) x2(1) b2 by (intro exI[of _ "xs1 @ xs2"]) simp
  next
    case again
    have b4: "bearer_exchanges c path (xs1 @ xs2 @ xs4)"
      using f x1(2) x2(2) x4(2) by (auto simp: bearer_exchanges_def)
    have "answered_401 xs2" using x2(4) again by blast
    then have b5: "bearer_exchanges c path (xs1 @ xs2 @ xs4 @ xs5)"
      using f x1(2) x4(2) x5(2) by (auto simp: bearer_exchanges_def answered_401_def)
    show ?thesis
    proof (cases e4)
      case (Some e)
      then have "w' = w4" using r t1 g2 o3 t4 again by (simp add: bearerGet_def)
      then show ?thesis using x1(1) x2(1) x4(1) l3 b4 by (intro exI[of _ "xs1 @ xs2 @ xs4"]) simp
    next
      case None
      then have "w' = w5" using r t1 g2 o3 t4 g5 again by (simp add: bearerGet_def)
      then show ?thesis
        using x1(1) x2(1) x4(1) x5(1) l3 b5 by (intro exI[of _ "xs1 @ xs2 @ xs4 @ xs5"]) simp
    qed
  qed
qed

lemma ListServers_log:
  assumes L: "logs_exchanges log net" and r: "ListServers net c tc w = (out, tc', w')"
  shows "\<exists>xs. log w' = log w @ xs \<and> bearer_exchanges c ''/servers'' xs"
proof -
  obtain o1 s1 where b: "bearerGet net c ''/servers'' tc w = (o1, s1)" by (metis surj_pair)
  have "s1 = (tc', w')" using r b by (auto simp: ListServers_def split: sum.splits option.splits)
  then show ?thesis using bearerGet_log[OF L] b by metis
qed

lemma FindServerByName_log:
  assumes L: "logs_exchanges log net" and r: "FindServerByName net c name tc w = (out, tc', w')"
  shows "\<exists>xs. log w' = log w @ xs \<and> list_all (console_exchange c ''/servers'') xs"
proof (cases "name = []")
  case True
  then show ?thesis using r by (intro exI[of _ "[]"]) (simp add: FindServerByName_def)
next
  case False
  obtain o1 s1 where b: "ListServers net c tc w = (o1, s1)" by (metis surj_pair)
  have "s1 = (tc', w')" using r b False by (auto simp: FindServerByName_def split: sum.splits option.splits)
  then show ?thesis using ListServers_log[OF L] b unfolding bearer_exchanges_def by metis
qed

lemma FindServerByName_result:
  assumes "FindServerByName net c name tc w = (Inr srv, s)"
  shows "srv_Name srv = name \<and> name \<noteq> []
    \<and> (\<exists>servers. fst (ListServers net c tc w) = Inr servers \<and> srv \<in> set servers)"
  using assms
  by (auto simp: FindServerByName_def dest: find_Some_mem split: if_splits prod.splits sum.splits option.splits)

end
