(* ===== verification/Recovery.thy ===== *)
theory Recovery
  imports Traffic
begin

text \<open>
  Facts about the creation of a server and its recovery by name: what a recovery can send and
  find, that it returns, and what \<open>CreateServer\<close> has sent when it returns.
\<close>

section \<open>The rounds\<close>

text \<open>A wait that the context cuts short leaves a context with an error.\<close>

definition ctx_consistent :: "('w, 'z) runtime_scheme \<Rightarrow> bool" where
  "ctx_consistent rt = (\<forall>d w. fst (rt_wait rt d w) \<noteq> None \<longrightarrow> rt_ctx_err rt (snd (rt_wait rt d w)) \<noteq> None)"

lemma sleepCtx_False: "ctx_consistent rt \<Longrightarrow> sleepCtx rt d w = (False, w') \<Longrightarrow> rt_ctx_err rt w' \<noteq> None"
  unfolding ctx_consistent_def sleepCtx_def
  by (auto split: if_splits prod.splits option.splits)
    (metis fst_conv option.distinct(1) snd_conv)+

lemma sleepCtx_log: "logs_exchanges log net \<Longrightarrow> sleepCtx net d w = (b, w') \<Longrightarrow> log w' = log w"
  by (auto simp: sleepCtx_def logs_wait split: if_splits prod.splits option.splits)

lemma sleepCtx_time:
  assumes "clock_progress clk rt" and "sleepCtx rt d w = (True, w')"
  shows "clk w + d \<le> clk w'"
  using assms
  by (auto simp: sleepCtx_def clock_progress_wait split: if_splits prod.splits option.splits)

text \<open>The ways in which a round ends.\<close>

lemma recover_round_cases:
  assumes "recover_round net hc con name deadline (tc, w) = (out, tc', w')"
  obtains (found) srv where "FindServerByName net con name tc w = (Inr srv, tc', w')" "out = Inl (srv, None)"
  | (failed) f w1 err where "FindServerByName net con name tc w = (f, tc', w1)" "out = Inl (zero_server, Some err)"
      "w' = w1 \<or> (\<exists>t. rt_now net w1 = (t, w'))"
  | (cancelled) f w1 t1 w2 t2 w3 where "FindServerByName net con name tc w = (f, tc', w1)"
      "rt_now net w1 = (t1, w2)" "rt_now net w2 = (t2, w3)"
      "sleepCtx net (hc_recoveryPollEvery hc) w3 = (False, w')" "out = Inl (zero_server, rt_ctx_err net w')"
  | (again) f w1 t1 w2 t2 w3 where "FindServerByName net con name tc w = (f, tc', w1)"
      "rt_now net w1 = (t1, w2)" "t1 \<le> deadline" "rt_now net w2 = (t2, w3)"
      "sleepCtx net (hc_recoveryPollEvery hc) w3 = (True, w')" "out = Inr ()"
proof -
  obtain f tc1 w1 where f: "FindServerByName net con name tc w = (f, tc1, w1)" by (metis prod_cases3)
  obtain t1 w2 where t1: "rt_now net w1 = (t1, w2)" by fastforce
  obtain t2 w3 where t2: "rt_now net w2 = (t2, w3)" by fastforce
  obtain b w4 where b: "sleepCtx net (hc_recoveryPollEvery hc) w3 = (b, w4)" by fastforce
  note d = assms[unfolded recover_round_def]
  show ?thesis
  proof (cases f)
    case (Inr srv)
    then show ?thesis using d f found[of srv] by simp
  next
    case (Inl err)
    show ?thesis
    proof (cases "IsClientError (Some err)")
      case True
      then show ?thesis using d f Inl failed[of f w1] by auto
    next
      case nc: False
      show ?thesis
      proof (cases "t1 > deadline")
        case True
        then show ?thesis using d f Inl nc t1 failed[of f w1] by auto
      next
        case False
        then show ?thesis
          using d f Inl nc t1 t2 b cancelled[of f w1 t1 w2 t2 w3] again[of f w1 t1 w2 t2 w3]
          by (cases b) auto
      qed
    qed
  qed
qed

lemma recover_round_log:
  assumes L: "logs_exchanges log net"
    and r: "recover_round net hc con name deadline (tc, w) = (out, tc', w')"
  shows "\<exists>xs. log w' = log w @ xs \<and> list_all (console_exchange con ''/servers'') xs"
  using r
proof (cases rule: recover_round_cases)
  case (found srv)
  then show ?thesis using FindServerByName_log[OF L] by blast
next
  case (failed f w1 err)
  then have "log w' = log w1" using logs_now[OF L] by auto
  then show ?thesis using FindServerByName_log[OF L failed(1)] by auto
next
  case (cancelled f w1 t1 w2 t2 w3)
  then have "log w' = log w1" using logs_now[OF L] sleepCtx_log[OF L] by metis
  then show ?thesis using FindServerByName_log[OF L cancelled(1)] by auto
next
  case (again f w1 t1 w2 t2 w3)
  then have "log w' = log w1" using logs_now[OF L] sleepCtx_log[OF L] by metis
  then show ?thesis using FindServerByName_log[OF L again(1)] by auto
qed

text \<open>What a recovery finds has the name asked for.\<close>

lemma recover_round_name:
  assumes "ctx_consistent net"
    and "recover_round net hc con name deadline (tc, w) = (Inl (srv, None), tc', w')"
  shows "srv_Name srv = name"
  using assms(2)
proof (cases rule: recover_round_cases)
  case (found s)
  then show ?thesis using FindServerByName_result[OF found(1)] by simp
next
  case (cancelled f w1 t1 w2 t2 w3)
  then show ?thesis using sleepCtx_False[OF assms(1) cancelled(4)] by simp
qed auto

section \<open>The recovery\<close>

lemma recoverByName_log:
  assumes L: "logs_exchanges log net"
    and r: "recoverByName net hc con name (tc, w) = Some (out, tc', w')"
  shows "\<exists>xs. log w' = log w @ xs \<and> list_all (console_exchange con ''/servers'') xs"
proof -
  obtain b w1 where b: "sleepCtx net (hc_recoveryGrace hc) w = (b, w1)" by fastforce
  note l1 = sleepCtx_log[OF L b]
  show ?thesis
  proof (cases b)
    case False
    then have "w' = w1" using r b by (auto simp: recoverByName_def)
    then show ?thesis using l1 by (intro exI[of _ "[]"]) simp
  next
    case True
    obtain t w2 where t: "rt_now net w1 = (t, w2)" by fastforce
    let ?step = "recover_round net hc con name (t + hc_recoveryMax hc)"
    let ?I = "\<lambda>s. \<exists>xs. log (snd s) = log w @ xs \<and> list_all (console_exchange con ''/servers'') xs"
    have p: "poll ?step (tc, w2) = Some (out, tc', w')" using r b True t by (auto simp: recoverByName_def)
    have i: "?I (tc, w2)" using logs_now[OF L t] l1 by (intro exI[of _ "[]"]) simp
    have keep: "?I s1" if Is: "?I s" and st: "?step s = (x, s1)" for s x s1
    proof -
      obtain tc0 w0 tc1 w3 where s: "s = (tc0, w0)" "s1 = (tc1, w3)" by fastforce
      obtain ys where "log w3 = log w0 @ ys" "list_all (console_exchange con ''/servers'') ys"
        using recover_round_log[OF L] st s by blast
      moreover obtain xs where "log w0 = log w @ xs" "list_all (console_exchange con ''/servers'') xs"
        using Is s by auto
      ultimately show ?thesis by (intro exI[of _ "xs @ ys"]) (simp add: s)
    qed
    have "\<exists>s0. ?I s0 \<and> ?step s0 = (Inl out, tc', w')"
      by (rule poll_last[where I = ?I, OF p i]) (rule keep)
    then obtain s0 where "?I s0" and "?step s0 = (Inl out, tc', w')" by blast
    from keep[OF this] show ?thesis by simp
  qed
qed

lemma recoverByName_name:
  assumes c: "ctx_consistent net"
    and r: "recoverByName net hc con name (tc, w) = Some ((srv, None), tc', w')"
  shows "srv_Name srv = name"
proof -
  obtain b w1 where b: "sleepCtx net (hc_recoveryGrace hc) w = (b, w1)" by fastforce
  have b1: b
  proof (rule ccontr)
    assume n: "\<not> b"
    then have "rt_ctx_err net w1 = None" using r b by (auto simp: recoverByName_def)
    moreover have "sleepCtx net (hc_recoveryGrace hc) w = (False, w1)" using n b by simp
    ultimately show False using sleepCtx_False[OF c] by blast
  qed
  obtain t w2 where t: "rt_now net w1 = (t, w2)" by fastforce
  let ?step = "recover_round net hc con name (t + hc_recoveryMax hc)"
  have p: "poll ?step (tc, w2) = Some ((srv, None), tc', w')"
    using r b b1 t by (auto simp: recoverByName_def)
  have "\<exists>s0. True \<and> ?step s0 = (Inl (srv, None), tc', w')"
    by (rule poll_last[where I = "\<lambda>_. True", OF p]) simp_all
  then obtain tc0 w0 where "?step (tc0, w0) = (Inl (srv, None), tc', w')" by auto
  then show ?thesis by (rule recover_round_name[OF c])
qed

subsection \<open>Termination\<close>

text \<open>The calls of the client do not turn time back.\<close>

definition net_keeps_time :: "('w \<Rightarrow> int) \<Rightarrow> ('w, 'z) net_scheme \<Rightarrow> bool" where
  "net_keeps_time clk net =
     (clock_progress clk net \<and> (\<forall>rq. keeps_time clk (net_Do net rq)) \<and> (\<forall>tc. keeps_time clk (net_others net tc)))"

lemma net_time:
  assumes "net_keeps_time clk net"
  shows "net_Do net rq w = (r, w') \<Longrightarrow> clk w \<le> clk w'"
    and "net_others net tc w = (tc', w') \<Longrightarrow> clk w \<le> clk w'"
    and "rt_now net w = (t, w') \<Longrightarrow> clk w \<le> t \<and> t \<le> clk w'"
  using assms keeps_timeD clock_progress_now unfolding net_keeps_time_def by metis+

lemma ensureToken_time:
  assumes T: "net_keeps_time clk net" and r: "ensureToken net c tc w = (e, tc', w')"
  shows "clk w \<le> clk w'"
proof -
  obtain tc0 w0 where o: "net_others net tc w = (tc0, w0)" by fastforce
  obtain fresh w1 where f: "token_fresh net tc0 w0 = (fresh, w1)" by fastforce
  obtain x w2 where d: "net_Do net (auth_request c) w1 = (x, w2)" by fastforce
  have "clk w0 \<le> clk w1"
    using f net_time(3)[OF T, of w0] by (auto simp: token_fresh_def split: if_splits prod.splits)
  moreover have "clk w \<le> clk w0" "clk w1 \<le> clk w2" using net_time(1,2)[OF T] o d by blast+
  moreover have "w' = w1 \<or> w' = w2"
    using r o f d by (auto simp: ensureToken_def split: if_splits option.splits sum.splits prod.splits)
  ultimately show ?thesis by auto
qed

lemma bearerGetOnce_time:
  assumes T: "net_keeps_time clk net" and r: "bearerGetOnce net c p tc w = (out, tc', w')"
  shows "clk w \<le> clk w'"
proof -
  obtain tc0 w0 where o: "net_others net tc w = (tc0, w0)" by fastforce
  obtain x w1 where d: "net_Do net (get_request c (tc_token tc0) p) w0 = (x, w1)" by fastforce
  have "w' = w0 \<or> w' = w1"
    using r o d by (auto simp: bearerGetOnce_def split: if_splits option.splits sum.splits prod.splits)
  then show ?thesis using net_time(1,2)[OF T] o d by (metis order_trans)
qed

lemma bearerGet_time:
  assumes T: "net_keeps_time clk net" and r: "bearerGet net c p tc w = (out, tc', w')"
  shows "clk w \<le> clk w'"
proof -
  obtain e1 tc1 w1 where t1: "ensureToken net c tc w = (e1, tc1, w1)" by (metis prod_cases3)
  obtain o2 tc2 w2 where g2: "bearerGetOnce net c p tc1 w1 = (o2, tc2, w2)" by (metis prod_cases3)
  obtain tc3 w3 where o3: "net_others net tc2 w2 = (tc3, w3)" by fastforce
  obtain e4 tc4 w4 where t4: "ensureToken net c (tc3\<lparr>tc_token := []\<rparr>) w3 = (e4, tc4, w4)" by (metis prod_cases3)
  obtain o5 tc5 w5 where g5: "bearerGetOnce net c p tc4 w4 = (o5, tc5, w5)" by (metis prod_cases3)
  have "w' = w1 \<or> w' = w2 \<or> w' = w4 \<or> w' = w5"
    using r t1 g2 o3 t4 g5
    by (cases e1; cases o2; cases e4) (auto simp: bearerGet_def split: if_splits)
  moreover have "clk w \<le> clk w1" "clk w1 \<le> clk w2" "clk w2 \<le> clk w3" "clk w3 \<le> clk w4" "clk w4 \<le> clk w5"
    using ensureToken_time[OF T] bearerGetOnce_time[OF T] net_time(2)[OF T] t1 g2 o3 t4 g5 by blast+
  ultimately show ?thesis by auto
qed

lemma FindServerByName_time:
  assumes T: "net_keeps_time clk net" and r: "FindServerByName net c name tc w = (out, tc', w')"
  shows "clk w \<le> clk w'"
proof -
  obtain o1 tc1 w1 where b: "bearerGet net c ''/servers'' tc w = (o1, tc1, w1)" by (metis prod_cases3)
  have "w' = w \<or> w' = w1"
    using r b
    by (auto simp: FindServerByName_def ListServers_def split: if_splits sum.splits option.splits)
  then show ?thesis using bearerGet_time[OF T b] by auto
qed

lemma recover_round_progress:
  assumes T: "net_keeps_time clk net"
    and r: "recover_round net hc con name deadline (tc, w) = (Inr (), tc', w')"
  shows "clk w \<le> deadline \<and> clk w + hc_recoveryPollEvery hc \<le> clk w'"
  using r
proof (cases rule: recover_round_cases)
  case (again f w1 t1 w2 t2 w3)
  have "clock_progress clk net" using T by (simp add: net_keeps_time_def)
  from sleepCtx_time[OF this again(5)] FindServerByName_time[OF T again(1)] net_time(3)[OF T again(2)]
    net_time(3)[OF T again(4)] again(3)
  show ?thesis by linarith
qed auto

lemma recoverByName_returns:
  assumes T: "net_keeps_time clk net" and d: "0 < hc_recoveryPollEvery hc"
  shows "\<exists>x. recoverByName net hc con name s = Some x"
proof -
  obtain tc w where s: "s = (tc, w)" by fastforce
  obtain b w1 where b: "sleepCtx net (hc_recoveryGrace hc) w = (b, w1)" by fastforce
  obtain t w2 where t: "rt_now net w1 = (t, w2)" by fastforce
  let ?dl = "t + hc_recoveryMax hc"
  let ?step = "recover_round net hc con name ?dl"
  let ?k = "nat (?dl - clk w2) + 1"
  have "\<exists>x. poll_n (Suc ?k) ?step (tc, w2) = Some x"
  proof (rule poll_n_returns[where clk = "clk \<circ> snd" and deadline = ?dl, OF d])
    fix v v1
    assume "?step v = (Inr (), v1)"
    then show "(clk \<circ> snd) v \<le> ?dl \<and> (clk \<circ> snd) v + hc_recoveryPollEvery hc \<le> (clk \<circ> snd) v1"
      using recover_round_progress[OF T] by (cases v; cases v1) fastforce
  next
    have "?dl - clk w2 < int ?k" by simp
    also have "int ?k \<le> int ?k * hc_recoveryPollEvery hc" using d by (simp add: mult_le_cancel_left1)
    finally show "?dl - (clk \<circ> snd) (tc, w2) < int ?k * hc_recoveryPollEvery hc" by simp
  qed
  then obtain x where "poll_n (Suc ?k) ?step (tc, w2) = Some x" by blast
  then have "poll ?step (tc, w2) = Some x" by (rule poll_n_poll)
  then show ?thesis using b t by (cases b; cases x; cases "fst x"; cases "snd x") (auto simp: recoverByName_def s)
qed

section \<open>Creating a server\<close>

lemma max_attempts_once [simp]: "max_attempts hc False = 1"
  by (simp add: max_attempts_def)

lemma at_most_one_row: "length xs \<le> Suc 0 \<Longrightarrow> xs = [] \<or> (\<exists>x. xs = [x])"
  by (cases xs) auto

text \<open>The request is sent at most once; whatever is sent after it reads the list of servers,
  and only when its answer was lost.\<close>

definition create_exchange :: "http_client \<Rightarrow> create_server_request \<Rightarrow> http_request" where
  "create_exchange hc req =
     api_request hc ''POST'' ''/service/server'' (Some (print_json (create_request_json req)))"

lemma CreateServer_log:
  assumes L: "logs_exchanges log net"
    and r: "CreateServer net hc con req (tc, w) = Some (out, tc', w')"
  shows "\<exists>rs xs. log w' = log w @ map (Pair (create_exchange hc req)) rs @ xs \<and> length rs \<le> 1
    \<and> list_all (console_exchange con ''/servers'') xs \<and> (xs \<noteq> [] \<longrightarrow> list_all isl rs)"
proof -
  let ?body = "Some (print_json (create_request_json req))"
  obtain b e w1 where d: "do_request net hc ''POST'' ''/service/server'' ?body False w = ((b, e), w1)"
    by (metis prod.collapse)
  from do_request_log[OF L d] obtain rs where
    rs: "log w1 = log w @ map (Pair (create_exchange hc req)) rs" "length rs \<le> 1"
    unfolding create_exchange_def by auto
  show ?thesis
  proof (cases e)
    case None
    then have "w' = w1" using r d by (auto simp: CreateServer_def split: sum.splits)
    then show ?thesis using rs by (intro exI[of _ rs] exI[of _ "[]"]) simp
  next
    case (Some err)
    show ?thesis
    proof (cases "IsTransportError (Some err)")
      case False
      then have "w' = w1" using r d Some by (auto simp: CreateServer_def)
      then show ?thesis using rs by (intro exI[of _ rs] exI[of _ "[]"]) simp
    next
      case True
      obtain o2 where rec: "recoverByName net hc con (req_Name req) (tc, w1) = Some (o2, tc', w')"
        using r d Some True by (auto simp: CreateServer_def split: option.splits prod.splits)
      obtain xs where xs: "log w' = log w1 @ xs" "list_all (console_exchange con ''/servers'') xs"
        using recoverByName_log[OF L rec] by blast
      have "list_all isl rs"
      proof (cases rs)
        case (Cons x ys)
        then have r1: "rs = [x]" using rs(2) by simp
        have a: "do_loop net hc ''POST'' ''/service/server'' ?body (Suc 0) True (hc_retryBase hc) None w
            = (Inl (b, Some err), w1) \<or>
          do_loop net hc ''POST'' ''/service/server'' ?body (Suc 0) True (hc_retryBase hc) None w
            = (Inr (Some err), w1)"
          using d Some by (auto simp: do_request_def Let_def split: sum.splits prod.splits)
        obtain y w2 where y: "do_attempt net hc ''POST'' ''/service/server'' ?body w = (y, w2)" by fastforce
        have w2: "w2 = w1" and e: "y = Inl (b, Some err) \<or> y = Inr err"
          using a y by (cases y; auto)+
        show ?thesis
          using y
        proof (cases rule: do_attempt_cases)
          case (url err')
          then show ?thesis using rs(1) r1 w2 by simp
        next
          case (again z)
          then have "z = x" using logs_Do[OF L again(1)] rs(1) r1 w2 by simp
          then show ?thesis
            using e again(3) True r1
            by (cases x) (auto simp: result_error_def IsTransportError_def)
        next
          case (ok resp)
          then show ?thesis using e by simp
        next
          case (client resp)
          then show ?thesis using e True by (auto simp: IsTransportError_def)
        qed
      qed simp
      then show ?thesis using rs xs by (intro exI[of _ rs] exI[of _ xs]) simp
    qed
  qed
qed

text \<open>What the results mean: an id was read from the success answer to the one request sent, and
  a recovered server has the name that was asked for.\<close>

lemma CreateServer_id:
  assumes L: "logs_exchanges log net"
    and r: "CreateServer net hc con req (tc, w) = Some (Inr i, tc', w')"
  shows "\<exists>resp. log w' = log w @ [(create_exchange hc req, Inr resp)] \<and> success_code (rs_StatusCode resp)
    \<and> decodeCommandID (rs_Body resp) = Inr i \<and> tc' = tc"
proof -
  let ?body = "Some (print_json (create_request_json req))"
  obtain b e w1 where d: "do_request net hc ''POST'' ''/service/server'' ?body False w = ((b, e), w1)"
    by (metis prod.collapse)
  have e: "e = None" "decodeCommandID b = Inr i" "w' = w1" "tc' = tc"
    using r d by (auto simp: CreateServer_def split: option.splits sum.splits if_splits prod.splits)
  from do_request_log[OF L d] e(1) obtain rs resp where
    rs: "log w1 = log w @ map (Pair (create_exchange hc req)) rs" "length rs \<le> 1" "rs \<noteq> []"
    "last rs = Inr resp" "success_code (rs_StatusCode resp)" "b = rs_Body resp"
    unfolding create_exchange_def by auto
  from rs(2-4) have "rs = [Inr resp]" using at_most_one_row[of rs] by auto
  with rs e show ?thesis by auto
qed

lemma CreateServer_recovered:
  assumes c: "ctx_consistent net"
    and r: "CreateServer net hc con req (tc, w) = Some (Inl err, tc', w')"
    and s: "as_ErrCreateRecovered err = Some srv"
    and no_url: "\<And>u e. net_ParseURL net u = Some e \<Longrightarrow> as_ErrCreateRecovered e = None"
    and no_ctx: "\<And>d w e w'. rt_wait net d w = (Some e, w') \<Longrightarrow> as_ErrCreateRecovered e = None"
  shows "srv_Name srv = req_Name req"
proof -
  let ?body = "Some (print_json (create_request_json req))"
  obtain b e w1 where d: "do_request net hc ''POST'' ''/service/server'' ?body False w = ((b, e), w1)"
    by (metis prod.collapse)
  have ne: "as_ErrCreateRecovered e' = None" if "e = Some e'" for e'
  proof -
    obtain y w2 where y: "do_attempt net hc ''POST'' ''/service/server'' ?body w = (y, w2)" by fastforce
    have "y = Inl (b, Some e') \<or> y = Inr e'"
      using d y that by (cases y) (auto simp: do_request_def)
    with y show ?thesis
      by (cases rule: do_attempt_cases)
        (auto simp: result_error_def redactErr_def no_url split: sum.splits)
  qed
  have dec: "as_ErrCreateRecovered x = None" if "decodeCommandID z = Inl x" for z x
    using that by (auto simp: decodeCommandID_def Let_def split: option.splits)
  show ?thesis
  proof (cases e)
    case None
    then have "\<exists>x. decodeCommandID b = Inl x \<and> as_ErrCreateRecovered err = as_ErrCreateRecovered x"
      using r d by (auto simp: CreateServer_def split: sum.splits)
    then show ?thesis using dec s by auto
  next
    case (Some e')
    then have "IsTransportError (Some e')"
      using r d s ne[OF Some] by (auto simp: CreateServer_def split: if_splits)
    then obtain o2 s2 where rec: "recoverByName net hc con (req_Name req) (tc, w1) = Some (o2, s2)"
      and out: "(case o2 of (server, None) \<Rightarrow> err = ErrCreateRecovered server
         | (server, Some x) \<Rightarrow> as_ErrCreateRecovered err = as_ErrCreateRecovered e')"
      using r d Some by (auto simp: CreateServer_def split: option.splits prod.splits)
    obtain server e2 tc2 w2 where o2: "o2 = (server, e2)" "s2 = (tc2, w2)" by (metis prod.collapse)
    have "e2 = None" using out ne[OF Some] s o2 by (cases e2) auto
    with out o2 s have "srv = server" by simp
    then show ?thesis using recoverByName_name[OF c] rec o2 \<open>e2 = None\<close> by blast
  qed
qed

end
