(* ===== verification/Wire.thy ===== *)
theory Wire
  imports Recovery
begin

text \<open>
  A scripted network on which the properties of the Kamatera clients are exercised: a clock,
  the answers that requests will get, in their order, and the exchanges so far. The theorems
  never depend on it; their witnesses run the clients over it.
\<close>

record wire =
  wr_clock :: int
  wr_answers :: "(string + http_response) list"
  wr_log :: "exchange list"

definition wire_now :: "wire \<Rightarrow> int \<times> wire" where
  "wire_now w = (wr_clock w, w)"

definition wire_wait :: "int \<Rightarrow> wire \<Rightarrow> goerr option \<times> wire" where
  "wire_wait d w = (None, w\<lparr>wr_clock := wr_clock w + max 0 d\<rparr>)"

definition wire_Do :: "http_request \<Rightarrow> wire \<Rightarrow> (string + http_response) \<times> wire" where
  "wire_Do rq w =
     (case wr_answers w of
        [] \<Rightarrow> (Inl ''EOF'', w\<lparr>wr_log := wr_log w @ [(rq, Inl ''EOF'')]\<rparr>)
      | a # as \<Rightarrow> (a, w\<lparr>wr_answers := as, wr_log := wr_log w @ [(rq, a)]\<rparr>))"

definition wire_net :: "wire net" where
  "wire_net =
     \<lparr>rt_now = wire_now, rt_wait = wire_wait, rt_ctx_err = (\<lambda>w. None),
      net_ParseURL = (\<lambda>u. None), net_Do = wire_Do, net_others = (\<lambda>tc w. (tc, w))\<rparr>"

definition answers :: "(string + http_response) list \<Rightarrow> wire" where
  "answers as = \<lparr>wr_clock = 0, wr_answers = as, wr_log = []\<rparr>"

definition answer :: "int \<Rightarrow> string \<Rightarrow> string + http_response" where
  "answer code body = Inr \<lparr>rs_StatusCode = code, rs_Body = body\<rparr>"

definition wire_creds :: credentials where
  "wire_creds = \<lparr>cred_ClientID = ''i'', cred_Secret = ''s'', cred_JoinToken = [], cred_SSHPubKey = []\<rparr>"

definition wire_client :: http_client where
  "wire_client = fst (NewClient wire_creds [])"

definition wire_console :: console where
  "wire_console = snd (NewClient wire_creds [])"

text \<open>A token that is valid for an hour.\<close>

definition wire_token :: token_cache where
  "wire_token = \<lparr>tc_token = ''t'', tc_expiresAt = 3600 * second\<rparr>"

lemmas wire_defs = wire_now_def wire_wait_def wire_Do_def wire_net_def answers_def answer_def

lemma wire_logs: "logs_exchanges wr_log wire_net"
  by (auto simp: logs_exchanges_def wire_defs split: list.splits)

lemma wire_time: "net_keeps_time wr_clock wire_net"
  by (auto simp: net_keeps_time_def clock_progress_def keeps_time_def wire_defs split: list.splits)

lemma wire_ctx: "ctx_consistent wire_net"
  by (simp add: ctx_consistent_def wire_defs)

end
