(* ===== verification/KamateraProps.thy ===== *)
theory KamateraProps
  imports Wire
begin

text \<open>
  What the Kamatera clients promise: the properties of \<open>client.go\<close>, \<open>console_client.go\<close> and
  \<open>errors.go\<close> of \<open>internal/kamatera\<close>.
\<close>

section \<open>Retries\<close>

text \<open>
  C26. A request is repeated only when that is safe: \<open>do\<close> sends the same request at most
  \<open>maxRetries + 1\<close> times when it may retry and at most once otherwise; every answer but the
  last was a transport error or neither a success nor a 4xx; a result without an error is
  the body of the last answer, which was a success (or nothing was allowed to be sent).
\<close>

theorem do_retries_safely:
  assumes "logs_exchanges log net"
    and "do_request net hc m p b retry w = ((body, err), w')"
  shows "\<exists>rs. log w' = log w @ map (Pair (api_request hc m p b)) rs
    \<and> int (length rs) \<le> max 0 (if retry then wrap64 (hc_maxRetries hc + 1) else 1)
    \<and> list_all retried (butlast rs)
    \<and> (err \<noteq> None \<or> rs = [] \<and> max_attempts hc retry \<le> 0 \<and> body = []
       \<or> (\<exists>resp. rs \<noteq> [] \<and> last rs = Inr resp \<and> success_code (rs_StatusCode resp) \<and> body = rs_Body resp))"
  using do_request_log[OF assms] unfolding max_attempts_def[symmetric] by blast

lemma retry_run:
  "case do_request wire_net wire_client ''POST'' ''/x'' (Some []) True (answers [Inl ''EOF'', answer 503 [], answer 200 ''k'']) of
     (r, w) \<Rightarrow> r = (''k'', None) \<and> length (wr_log w) = 3 \<and> wr_clock w = 4 * second"
  by code_simp

theorem do_retries_safely_witness:
  "\<exists>w' rs. do_request wire_net wire_client ''POST'' ''/x'' (Some []) True
       (answers [Inl ''EOF'', answer 503 [], answer 200 ''k'']) = ((''k'', None), w')
     \<and> length rs = 3 \<and> list_all retried (butlast rs)"
proof -
  obtain w' where r: "do_request wire_net wire_client ''POST'' ''/x'' (Some []) True
      (answers [Inl ''EOF'', answer 503 [], answer 200 ''k'']) = ((''k'', None), w')"
    and n: "length (wr_log w') = 3"
    using retry_run by (auto split: prod.splits)
  have "wr_log (answers xs) = []" for xs by (simp add: answers_def)
  with do_retries_safely[OF wire_logs r] n r show ?thesis by fastforce
qed

section \<open>Creating a server\<close>

text \<open>
  C23. A server is asked for at most once: whatever happens, \<open>CreateServer\<close> has sent its POST
  at most one time when it returns, and all it sent after it authenticates with the console
  or reads its list of servers, and only when the POST got no answer.
\<close>

theorem create_sent_once:
  assumes "logs_exchanges log net"
    and "CreateServer net hc con req (tc, w) = Some (out, tc', w')"
  shows "\<exists>rs xs. log w' = log w @ map (Pair (create_exchange hc req)) rs @ xs \<and> length rs \<le> 1
    \<and> list_all (console_exchange con ''/servers'') xs \<and> (xs = [] \<or> list_all isl rs)"
  using CreateServer_log[OF assms] by blast

definition demo_request :: create_server_request where
  "demo_request =
     \<lparr>req_Name = ''n'', req_Password = [], req_PasswordValidate = [], req_SSHKey = [],
      req_Datacenter = [], req_Image = [], req_CPU = [], req_RAM = 1, req_Disk = [],
      req_DailyBackup = [], req_Managed = [], req_Network = [], req_Quantity = 0,
      req_BillingCycle = [], req_MonthlyPackage = [], req_PowerOn = [], req_ScriptFile = []\<rparr>"

text \<open>The POST is lost; the first list does not show the server, the second does.\<close>

definition lost_create :: wire where
  "lost_create = answers [Inl ''EOF'', answer 200 ''[]'', answer 200 ''[{\"name\":\"n\"}]'']"

lemma recovered_run:
  "case CreateServer wire_net wire_client wire_console demo_request (wire_token, lost_create) of
     None \<Rightarrow> False
   | Some (out, tc, w) \<Rightarrow> out = Inl (ErrCreateRecovered (zero_server\<lparr>srv_Name := ''n''\<rparr>))
       \<and> map (rq_Method \<circ> fst) (wr_log w) = [''POST'', ''GET'', ''GET''] \<and> wr_clock w = 45 * second"
  by code_simp

lemma recovered_run_ex:
  obtains tc w where "CreateServer wire_net wire_client wire_console demo_request (wire_token, lost_create)
      = Some (Inl (ErrCreateRecovered (zero_server\<lparr>srv_Name := ''n''\<rparr>)), tc, w)"
    "map (rq_Method \<circ> fst) (wr_log w) = [''POST'', ''GET'', ''GET'']"
  using recovered_run by (auto split: option.splits prod.splits)

theorem create_sent_once_witness:
  "\<exists>out tc' w' rs xs. CreateServer wire_net wire_client wire_console demo_request (wire_token, lost_create)
       = Some (out, tc', w')
     \<and> wr_log w' = map (Pair (create_exchange wire_client demo_request)) rs @ xs \<and> length rs \<le> 1 \<and> length xs \<ge> 2"
proof -
  obtain tc w where r: "CreateServer wire_net wire_client wire_console demo_request (wire_token, lost_create)
      = Some (Inl (ErrCreateRecovered (zero_server\<lparr>srv_Name := ''n''\<rparr>)), tc, w)"
    and m: "map (rq_Method \<circ> fst) (wr_log w) = [''POST'', ''GET'', ''GET'']" by (rule recovered_run_ex)
  have l: "wr_log lost_create = []" by (simp add: lost_create_def answers_def)
  have n: "length (wr_log w) = 3" using m by (metis length_map length_Cons list.size(3) numeral_3_eq_3)
  obtain rs xs where "wr_log w = map (Pair (create_exchange wire_client demo_request)) rs @ xs" "length rs \<le> 1"
    using create_sent_once[OF wire_logs r] l by auto
  moreover have "length xs \<ge> 2" using calculation n by auto
  ultimately show ?thesis using r by blast
qed

text \<open>
  C24. What \<open>CreateServer\<close> returns is true: an id was decoded from the success answer to the one
  request that was sent, and a recovered server has the name that was asked for (where a
  cancelled wait leaves a context with an error, and neither that nor a malformed URL is
  itself a recovery).
\<close>

theorem create_result_true:
  assumes "logs_exchanges log net" and "ctx_consistent net"
    and "CreateServer net hc con req (tc, w) = Some (out, tc', w')"
    and "\<And>u e. net_ParseURL net u = Some e \<Longrightarrow> as_ErrCreateRecovered e = None"
    and "\<And>d w e w'. rt_wait net d w = (Some e, w') \<Longrightarrow> as_ErrCreateRecovered e = None"
  shows "case out of
      Inr i \<Rightarrow> \<exists>resp. log w' = log w @ [(create_exchange hc req, Inr resp)]
                  \<and> success_code (rs_StatusCode resp) \<and> decodeCommandID (rs_Body resp) = Inr i
    | Inl err \<Rightarrow> (case as_ErrCreateRecovered err of None \<Rightarrow> True | Some srv \<Rightarrow> srv_Name srv = req_Name req)"
proof (cases out)
  case (Inr i)
  then show ?thesis using CreateServer_id[OF assms(1) assms(3)[unfolded Inr]] by auto
next
  case (Inl err)
  then show ?thesis
    using CreateServer_recovered[OF assms(2) assms(3)[unfolded Inl] _ assms(4,5)]
    by (auto split: option.splits)
qed

theorem create_result_true_witness:
  "\<exists>tc w srv. CreateServer wire_net wire_client wire_console demo_request (wire_token, lost_create)
       = Some (Inl (ErrCreateRecovered srv), tc, w) \<and> srv_Name srv = req_Name demo_request"
proof -
  obtain tc w where r: "CreateServer wire_net wire_client wire_console demo_request (wire_token, lost_create)
      = Some (Inl (ErrCreateRecovered (zero_server\<lparr>srv_Name := ''n''\<rparr>)), tc, w)" by (rule recovered_run_ex)
  have "net_ParseURL wire_net u \<noteq> Some e" "rt_wait wire_net d v \<noteq> (Some e, v')" for u e d v v'
    by (simp_all add: wire_defs)
  with create_result_true[OF wire_logs wire_ctx r] r show ?thesis by fastforce
qed

text \<open>The options of the package, and that they keep the interval of the recovery positive.\<close>

definition standard_option :: "client_option \<Rightarrow> bool" where
  "standard_option f =
     ((\<exists>u. f = WithBaseURL u) \<or> (\<exists>u. f = WithConsoleBaseURL u) \<or> (\<exists>n. f = WithMaxRetries n)
      \<or> (\<exists>d. f = WithRetryBaseDelay d) \<or> (\<exists>d. f = WithQueuePollInterval d)
      \<or> (\<exists>g e m. f = WithRecoveryParams g e m))"

lemma standard_option_poll:
  "standard_option f \<Longrightarrow> 0 < hc_recoveryPollEvery c \<Longrightarrow> 0 < hc_recoveryPollEvery (f c)"
  by (auto simp: standard_option_def WithBaseURL_def WithConsoleBaseURL_def WithMaxRetries_def
      WithRetryBaseDelay_def WithQueuePollInterval_def WithRecoveryParams_def Let_def)

lemma standard_options_poll:
  "list_all standard_option opts \<Longrightarrow> 0 < hc_recoveryPollEvery c \<Longrightarrow>
     0 < hc_recoveryPollEvery (foldl (\<lambda>c opt. opt c) c opts)"
  by (induction opts arbitrary: c) (auto intro: standard_option_poll)

text \<open>
  C25. Creating a server returns, whatever options of the package the client was built with:
  where the clock advances, waits take as long as asked and the calls do not turn time back,
  the recovery loop is over.
\<close>

theorem create_returns:
  assumes "net_keeps_time clk net" and "list_all standard_option opts"
  shows "\<exists>x. CreateServer net (fst (NewClient creds opts)) (snd (NewClient creds opts)) req s = Some x"
proof -
  let ?hc = "fst (NewClient creds opts)"
  let ?con = "snd (NewClient creds opts)"
  have "0 < hc_recoveryPollEvery ?hc"
    unfolding NewClient_def Let_def fst_conv
    by (rule standard_options_poll[OF assms(2)]) (simp add: second_def)
  from recoverByName_returns[OF assms(1) this]
  have rec: "\<exists>a b s2. recoverByName net ?hc ?con (req_Name req) s1 = Some ((a, b), s2)" for s1
    by (metis prod.collapse)
  obtain b e w1 where d: "do_request net ?hc ''POST'' ''/service/server''
      (Some (print_json (create_request_json req))) False (snd s) = ((b, e), w1)"
    by (metis prod.collapse)
  show ?thesis
  proof (cases e)
    case None
    then show ?thesis using d by (cases "decodeCommandID b") (simp_all add: CreateServer_def)
  next
    case (Some err)
    obtain x y s2 where "recoverByName net ?hc ?con (req_Name req) (fst s, w1) = Some ((x, y), s2)"
      using rec by blast
    then show ?thesis using d Some by (cases y) (simp_all add: CreateServer_def)
  qed
qed

theorem create_returns_witness:
  "\<exists>x. CreateServer wire_net (fst (NewClient wire_creds [WithMaxRetries 0, WithRecoveryParams 1 0 5]))
     (snd (NewClient wire_creds [WithMaxRetries 0, WithRecoveryParams 1 0 5])) demo_request
     (wire_token, answers []) = Some x"
proof (rule create_returns[OF wire_time])
  have "standard_option (WithMaxRetries 0)" unfolding standard_option_def by blast
  moreover have "standard_option (WithRecoveryParams 1 0 5)" unfolding standard_option_def by blast
  ultimately show "list_all standard_option [WithMaxRetries 0, WithRecoveryParams 1 0 5]" by simp
qed

section \<open>Bodies\<close>

text \<open>Requests whose texts are valid UTF-8; what \<open>Marshal\<close> makes of them is well formed.\<close>

definition utf8_request :: "create_server_request \<Rightarrow> bool" where
  "utf8_request r =
     list_all valid_utf8
       [req_Name r, req_Password r, req_PasswordValidate r, req_SSHKey r, req_Datacenter r, req_Image r,
        req_CPU r, req_Disk r, req_DailyBackup r, req_Managed r, req_Network r, req_BillingCycle r,
        req_MonthlyPackage r, req_PowerOn r, req_ScriptFile r]"

lemma valid_utf8_ascii: "list_all (\<lambda>c. byte c < 0x80) s \<Longrightarrow> valid_utf8 s"
proof (induction s)
  case Nil
  then show ?case by (simp add: valid_utf8.simps)
next
  case (Cons c s)
  then show ?case by (subst valid_utf8.simps) (simp add: utf8_len_ascii)
qed

lemma wf_members:
  "valid_utf8 k \<Longrightarrow> valid_utf8 s \<Longrightarrow> list_all (\<lambda>(k, v). valid_utf8 k \<and> wf_json d v) (string_member o_e k s)"
  "valid_utf8 k \<Longrightarrow> list_all (\<lambda>(k, v). valid_utf8 k \<and> wf_json d v) (int_member o_e k n)"
  by (simp_all add: string_member_def int_member_def valid_show_int)

lemma wf_create_request:
  assumes "utf8_request r"
  shows "wf_json 10000 (create_request_json r)"
proof -
  have k: "valid_utf8 ''name''" "valid_utf8 ''password''" "valid_utf8 ''passwordValidate''" "valid_utf8 ''ssh-key''"
    "valid_utf8 ''datacenter''" "valid_utf8 ''image''" "valid_utf8 ''cpu''" "valid_utf8 ''ram''" "valid_utf8 ''disk''"
    "valid_utf8 ''dailybackup''" "valid_utf8 ''managed''" "valid_utf8 ''network''" "valid_utf8 ''quantity''"
    "valid_utf8 ''billingcycle''" "valid_utf8 ''monthlypackage''" "valid_utf8 ''poweronaftercreate''"
    "valid_utf8 ''script-file''"
    by (rule valid_utf8_ascii, simp add: byte_def)+
  have s: "valid_utf8 (req_Name r)" "valid_utf8 (req_Password r)" "valid_utf8 (req_PasswordValidate r)"
    "valid_utf8 (req_SSHKey r)" "valid_utf8 (req_Datacenter r)" "valid_utf8 (req_Image r)" "valid_utf8 (req_CPU r)"
    "valid_utf8 (req_Disk r)" "valid_utf8 (req_DailyBackup r)" "valid_utf8 (req_Managed r)"
    "valid_utf8 (req_Network r)" "valid_utf8 (req_BillingCycle r)" "valid_utf8 (req_MonthlyPackage r)"
    "valid_utf8 (req_PowerOn r)" "valid_utf8 (req_ScriptFile r)"
    using assms by (simp_all add: utf8_request_def)
  show ?thesis
    unfolding create_request_json_def wf_json.simps list_all_append
    using wf_members k s by simp
qed



text \<open>
  C28. An id is read back from each of the shapes in which the API was seen to send one: a list
  with a string or a number, a string, an object with one of three list keys or with \<open>id\<close>.
\<close>

theorem command_id_read_back:
  assumes "valid_utf8 i" and "i \<noteq> []" and "isValidNumber n"
  shows "decodeCommandID (print_json (JArr [JStr i])) = Inr i
    \<and> decodeCommandID (print_json (JArr [JNum n])) = Inr n
    \<and> decodeCommandID (print_json (JStr i)) = Inr i
    \<and> list_all (\<lambda>k. decodeCommandID (print_json (JObj [(k, JArr [JStr i])])) = Inr i)
        [''commandIds'', ''commandIDs'', ''command_ids'']
    \<and> decodeCommandID (print_json (JObj [(''id'', JStr i)])) = Inr i"
proof -
  have k: "valid_utf8 ''commandIds''" "valid_utf8 ''commandIDs''" "valid_utf8 ''command_ids''" "valid_utf8 ''id''"
    by (rule valid_utf8_ascii, simp add: byte_def)+
  note d = decodeCommandID_def id_from_array_def id_from_string_def id_from_object_def into_raw_list_def
    into_string_def into_number_def into_raw_map_def into_strings_def into_slice_def
  show ?thesis
    using assms k by (simp add: parse_print d del: print_json.simps)
qed

theorem command_id_read_back_witness:
  "decodeCommandID (print_json (JArr [JStr ''c1''])) = Inr ''c1''"
proof -
  have "valid_utf8 ''c1''" by (rule valid_utf8_ascii) (simp add: byte_def)
  moreover have "isValidNumber ''7''"
    by (simp add: isValidNumber_def number_int_def number_frac_def number_exp_def skip_digits_def
        is_digit_def byte_def)
  ultimately show ?thesis using command_id_read_back[of "''c1''" "''7''"] by simp
qed

text \<open>An answer without an id can pass for one with the empty id.\<close>

theorem command_id_can_be_empty:
  "decodeCommandID ''[null]'' = Inr [] \<and> decodeCommandID ''{\"commandIds\":[\"\"]}'' = Inr []"
  by code_simp

section \<open>The console\<close>

text \<open>
  Reading from the console sends at most two reads, of the one path, and at most two
  authentications, nothing else; and it reads a second time only after a 401.
\<close>

lemma console_reads_twice_at_most:
  assumes "logs_exchanges log net"
    and "bearerGet net c path tc w = (out, tc', w')"
  shows "\<exists>xs. log w' = log w @ xs \<and> list_all (console_exchange c path) xs
    \<and> length (filter is_get xs) \<le> 2 \<and> length (filter (\<lambda>x. \<not> is_get x) xs) \<le> 2
    \<and> (length (filter is_get xs) \<noteq> 2
       \<or> (\<exists>resp. snd (hd (filter is_get xs)) = Inr resp \<and> rs_StatusCode resp = 401))"
  using bearerGet_log[OF assms] unfolding bearer_exchanges_def by blast

text \<open>A token that the API no longer accepts, and the second read with a new one.\<close>

definition rotated :: wire where
  "rotated = answers [answer 401 [], answer 200 ''{\"authentication\":\"u\",\"expires\":9}'', answer 200 ''k'']"

lemma rotated_run:
  "case bearerGet wire_net wire_console ''/q'' wire_token rotated of
     (out, tc, w) \<Rightarrow> out = Inr ''k'' \<and> tc = \<lparr>tc_token = ''u'', tc_expiresAt = 9 * second\<rparr>
       \<and> map (rq_Method \<circ> fst) (wr_log w) = [''GET'', ''POST'', ''GET'']"
  by code_simp

text \<open>
  When \<open>ensureToken\<close> succeeds there is a token; it has sent at most one request, an
  authentication, and if it sent none the token it found is valid for more than thirty
  seconds from a reading of the clock.
\<close>

lemma token_is_fresh:
  assumes "logs_exchanges log net"
    and "ensureToken net c tc w = (None, tc', w')"
  shows "tc_token tc' \<noteq> []
    \<and> (\<exists>xs. log w' = log w @ xs \<and> length xs \<le> 1 \<and> list_all (\<lambda>x. fst x = auth_request c) xs
         \<and> (xs \<noteq> [] \<or> (\<exists>v now v'. rt_now net v = (now, v') \<and> now + 30 * second < tc_expiresAt tc')))"
  using ensureToken_log[OF assms] by blast

section \<open>Errors\<close>

text \<open>
  C29. The classes of errors: no error is in two of them; an error is in none exactly when it
  is nil or an answer of the API with a code under 400; wrapping, however often, keeps the
  class; and a server that is not found counts as a transport error.
\<close>

theorem error_classes_partition:
  "length (filter (\<lambda>p. p err) [IsClientError, IsServerError, IsTransportError]) \<le> 1
   \<and> ((\<not> IsClientError err \<and> \<not> IsServerError err \<and> \<not> IsTransportError err) =
      (case err of None \<Rightarrow> True
       | Some e \<Rightarrow> (case as_APIError e of None \<Rightarrow> False | Some (m, p, code, b) \<Rightarrow> code < 400)))
   \<and> IsClientError (Some (foldr (\<lambda>(f, a). Wrapf f a) ws e)) = IsClientError (Some e)
   \<and> IsServerError (Some (foldr (\<lambda>(f, a). Wrapf f a) ws e)) = IsServerError (Some e)
   \<and> IsTransportError (Some (foldr (\<lambda>(f, a). Wrapf f a) ws e)) = IsTransportError (Some e)
   \<and> IsTransportError (Some (ServerNotFoundError n))"
  using ec.at_most_one[of err] ec.chain_client[of ws e] ec.chain_server[of ws e] ec.chain_transport[of ws e]
  by (auto simp: class_defs split: option.splits)

text \<open>The redaction of transport errors leaves the value of the header in the text.\<close>

theorem redaction_keeps_secret:
  "redactErr (''AuthSecret: hunter2'') = ErrorString ''AuthSecret:<redacted> hunter2''"
  by (simp add: redactErr_def replace_all_Cons)

end
