(* ===== verification/Watcher.thy ===== *)
theory Watcher
  imports Console
begin

text \<open>
  \<open>internal/kamatera/watcher.go\<close>: the poller that all waits for commands share. Its callers,
  the poller's goroutine and the passing of time are the steps of a transition system;
  what the code does under its mutex is one step. A pointer to a \<open>pendingCmd\<close> is told apart
  from others by \<open>pc_uid\<close>. A channel of capacity one, which gets one result and is closed at
  once, is the list \<open>ws_sent\<close> of the results sent so far, by the uid of the command.
\<close>

section \<open>Data\<close>

record pending_cmd =
  pc_commandID :: string
  pc_enrichName :: string
  pc_deadline :: int
  pc_uid :: nat

record wait_result =
  res_server :: server
  res_err :: "goerr option"

record completion =
  cm_cmd :: pending_cmd
  cm_result :: wait_result

text \<open>What a caller of \<open>register\<close> is doing: it was refused, it blocks in the \<open>select\<close>, it got
  its result, its context ended and it is about to call \<open>cancel\<close>, or it has done so.\<close>

datatype waiter =
    NotStarted
  | Refused goerr
  | Waiting pending_cmd
  | Received pending_cmd wait_result
  | Cancelling pending_cmd
  | Cancelled pending_cmd

text \<open>Where a goroutine of \<open>run\<close> is: about to take a snapshot, with the snapshot before its
  API calls, before the delivery of timeouts or of completions, before the test whether any
  command is pending, or waiting for the ticker.\<close>

datatype runner =
    RTick
  | RSnapped "pending_cmd list"
  | RExpire int "pending_cmd list"
  | RDeliver "completion list"
  | RCheck
  | RSleep

record 'w watcher_state =
  ws_pending :: "(string, pending_cmd) gomap"
  ws_running :: bool
  ws_runners :: "runner list"
  ws_waiters :: "nat \<Rightarrow> waiter"
  ws_next :: nat
  ws_sent :: "(nat \<times> wait_result) list"
  ws_tc :: token_cache
  ws_world :: 'w

section \<open>One tick\<close>

definition timeout_error :: "pending_cmd \<Rightarrow> goerr" where
  "timeout_error p = Errorf ''kamatera: timeout waiting for command %s'' [AStr (pc_commandID p)]"

definition failed :: "goerr \<Rightarrow> wait_result" where
  "failed err = \<lparr>res_server = zero_server, res_err = Some err\<rparr>"

definition queue_by_id :: "queue_status list \<Rightarrow> (string, queue_status) gomap" where
  "queue_by_id queue = foldl (\<lambda>m q. AList.update (qs_ID q) q m) [] queue"

definition server_by_name :: "server list \<Rightarrow> (string, server) gomap" where
  "server_by_name servers = foldl (\<lambda>m s. AList.update (srv_Name s) s m) [] servers"

text \<open>The result for one command of the snapshot, if it is complete.\<close>

definition classify_cmd :: "int \<Rightarrow> (string, queue_status) gomap \<Rightarrow> pending_cmd \<Rightarrow> wait_result option" where
  "classify_cmd now queueByID p =
     (if now > pc_deadline p then Some (failed (timeout_error p))
      else
     (case map_of queueByID (pc_commandID p) of
        None \<Rightarrow> None
      | Some q \<Rightarrow>
          if IsFailure (qs_Status q) then
            Some (failed (Errorf ''kamatera: command %s ended %s: %s''
                    [AStr (pc_commandID p), AStr (qs_Status q), AStr (truncate_str (qs_Log q) 200)]))
          else if IsTerminal (qs_Status q) then
            Some \<lparr>res_server = zero_server\<lparr>srv_Name := qs_Server q\<rparr>, res_err = None\<rparr>
          else None))"

fun classify ::
  "int \<Rightarrow> (string, queue_status) gomap \<Rightarrow> pending_cmd list \<Rightarrow> completion list \<times> string list" where
  "classify now queueByID [] = ([], [])"
| "classify now queueByID (p # ps) =
     (case classify now queueByID ps of (completed, names) \<Rightarrow>
      (case classify_cmd now queueByID p of
         None \<Rightarrow> (completed, names)
       | Some r \<Rightarrow>
           (\<lparr>cm_cmd = p, cm_result = r\<rparr> # completed,
            if res_err r = None \<and> pc_enrichName p \<noteq> [] then pc_enrichName p # names else names)))"

fun retainCompletions :: "'a list \<Rightarrow> ('a \<Rightarrow> bool) \<Rightarrow> 'a list" where
  "retainCompletions [] keep = []"
| "retainCompletions (v # vs) keep =
     (if keep v then v # retainCompletions vs keep else retainCompletions vs keep)"

text \<open>The test of the loop that enriches, and of the completions kept when the servers could not
  be listed.\<close>

definition needs_no_server :: "completion \<Rightarrow> bool" where
  "needs_no_server c = (res_err (cm_result c) \<noteq> None \<or> pc_enrichName (cm_cmd c) = [])"

definition enrich :: "(string, server) gomap \<Rightarrow> completion \<Rightarrow> completion" where
  "enrich serverByName c =
     (if needs_no_server c then c
      else
     (case map_of serverByName (pc_enrichName (cm_cmd c)) of
        Some srv \<Rightarrow> c\<lparr>cm_result := (cm_result c)\<lparr>res_server := srv\<rparr>\<rparr>
      | None \<Rightarrow> c\<lparr>cm_result := (cm_result c)\<lparr>res_err := Some
          (Errorf ''kamatera: command %s reached terminal state but server %q not in /service/server/info''
             [AStr (pc_commandID (cm_cmd c)), AStr (pc_enrichName (cm_cmd c))])\<rparr>\<rparr>))"

text \<open>The calls of a tick, between its snapshot and its delivery: either the queue could not be
  listed, and only deadlines are enforced, or the completions to deliver.\<close>

datatype tick_result = QueueFailed int | Completed "completion list"

definition tick_io ::
  "('w, 'z) net_scheme \<Rightarrow> console \<Rightarrow> pending_cmd list \<Rightarrow> token_cache \<Rightarrow> 'w
     \<Rightarrow> tick_result \<times> token_cache \<times> 'w" where
  "tick_io net con snapshot tc w =
     (case ListQueue net con tc w of
        (Inl err, tc1, w1) \<Rightarrow> (case rt_now net w1 of (now, w2) \<Rightarrow> (QueueFailed now, tc1, w2))
      | (Inr queue, tc1, w1) \<Rightarrow>
     (case rt_now net w1 of (now, w2) \<Rightarrow>
     (case classify now (queue_by_id queue) snapshot of (completed, names) \<Rightarrow>
      if names = [] then (Completed (map (enrich []) completed), tc1, w2)
      else
     (case ListServers net con tc1 w2 of
        (Inl err, tc2, w3) \<Rightarrow>
          (Completed (map (enrich []) (retainCompletions completed needs_no_server)), tc2, w3)
      | (Inr servers, tc2, w3) \<Rightarrow>
          (Completed (map (enrich (server_by_name servers)) completed), tc2, w3)))))"

section \<open>Under the mutex\<close>

text \<open>A result for a command whose entry is still the same is sent, and the entry removed.\<close>

definition resolve :: "pending_cmd \<Rightarrow> wait_result \<Rightarrow> 'w watcher_state \<Rightarrow> 'w watcher_state" where
  "resolve p r s =
     (case map_of (ws_pending s) (pc_commandID p) of
        None \<Rightarrow> s
      | Some cur \<Rightarrow>
          if pc_uid cur = pc_uid p then
            s\<lparr>ws_sent := (pc_uid p, r) # ws_sent s,
              ws_pending := AList.delete (pc_commandID p) (ws_pending s)\<rparr>
          else s)"

fun deliver :: "completion list \<Rightarrow> 'w watcher_state \<Rightarrow> 'w watcher_state" where
  "deliver [] s = s"
| "deliver (c # cs) s = deliver cs (resolve (cm_cmd c) (cm_result c) s)"

fun expireDeadlines :: "int \<Rightarrow> pending_cmd list \<Rightarrow> 'w watcher_state \<Rightarrow> 'w watcher_state" where
  "expireDeadlines now [] s = s"
| "expireDeadlines now (p # ps) s =
     expireDeadlines now ps (if now > pc_deadline p then resolve p (failed (timeout_error p)) s else s)"

text \<open>\<open>register\<close> up to its \<open>select\<close>, for the next uid.\<close>

definition register :: "string \<Rightarrow> string \<Rightarrow> int \<Rightarrow> 'w watcher_state \<Rightarrow> 'w watcher_state" where
  "register commandID enrichName deadline s =
     (let u = ws_next s;
          cmd = \<lparr>pc_commandID = commandID, pc_enrichName = enrichName, pc_deadline = deadline, pc_uid = u\<rparr>;
          s1 = s\<lparr>ws_next := Suc u\<rparr>
      in if commandID = [] then
           s1\<lparr>ws_waiters := (ws_waiters s)(u := Refused (Errorf ''kamatera: wait registered with empty commandID'' []))\<rparr>
         else if map_of (ws_pending s) commandID \<noteq> None then
           s1\<lparr>ws_waiters := (ws_waiters s)(u := Refused
              (Errorf ''kamatera: command %s is already being waited on'' [AStr commandID]))\<rparr>
         else
           s1\<lparr>ws_waiters := (ws_waiters s)(u := Waiting cmd),
              ws_pending := AList.update commandID cmd (ws_pending s),
              ws_running := True,
              ws_runners := (if ws_running s then ws_runners s else ws_runners s @ [RTick])\<rparr>)"

definition waitProvision :: "string \<Rightarrow> string \<Rightarrow> int \<Rightarrow> 'w watcher_state \<Rightarrow> 'w watcher_state" where
  "waitProvision commandID name deadline s = register commandID name deadline s"

definition waitTerminate :: "string \<Rightarrow> int \<Rightarrow> 'w watcher_state \<Rightarrow> 'w watcher_state" where
  "waitTerminate commandID deadline s = register commandID [] deadline s"

definition cancel :: "string \<Rightarrow> 'w watcher_state \<Rightarrow> 'w watcher_state" where
  "cancel commandID s = s\<lparr>ws_pending := AList.delete commandID (ws_pending s)\<rparr>"

definition set_runner :: "nat \<Rightarrow> runner \<Rightarrow> 'w watcher_state \<Rightarrow> 'w watcher_state" where
  "set_runner i r s = s\<lparr>ws_runners := (ws_runners s)[i := r]\<rparr>"

text \<open>The test at the end of a round of \<open>run\<close>: the goroutine ends when nothing is pending.\<close>

definition run_check :: "nat \<Rightarrow> 'w watcher_state \<Rightarrow> 'w watcher_state" where
  "run_check i s =
     (if ws_pending s = [] then
        s\<lparr>ws_running := False, ws_runners := take i (ws_runners s) @ drop (Suc i) (ws_runners s)\<rparr>
      else set_runner i RSleep s)"

text \<open>The snapshot of a tick: the entries of the map in the order of its \<open>range\<close>, and where the
  goroutine goes from there.\<close>

definition snapshot_of :: "'w watcher_state \<Rightarrow> pending_cmd list \<Rightarrow> bool" where
  "snapshot_of s snapshot = (mset snapshot = mset (map snd (ws_pending s)))"

definition after_snapshot :: "pending_cmd list \<Rightarrow> runner" where
  "after_snapshot snapshot = (if snapshot = [] then RCheck else RSnapped snapshot)"

declare snapshot_of_def [simp] after_snapshot_def [simp]

section \<open>Steps\<close>

inductive watcher_step ::
  "('w, 'z) net_scheme \<Rightarrow> console \<Rightarrow> 'w watcher_state \<Rightarrow> 'w watcher_state \<Rightarrow> bool"
  for net con where
  ws_provision: "rt_now net (ws_world s) = (now, w1) \<Longrightarrow>
     watcher_step net con s (waitProvision commandID name (now + timeout) (s\<lparr>ws_world := w1\<rparr>))"
| ws_terminate: "rt_now net (ws_world s) = (now, w1) \<Longrightarrow>
     watcher_step net con s (waitTerminate commandID (now + timeout) (s\<lparr>ws_world := w1\<rparr>))"
| ws_receive: "ws_waiters s u = Waiting p \<Longrightarrow> map_of (ws_sent s) u = Some r \<Longrightarrow>
     watcher_step net con s (s\<lparr>ws_waiters := (ws_waiters s)(u := Received p r)\<rparr>)"
| ws_ctx_done: "ws_waiters s u = Waiting p \<Longrightarrow>
     watcher_step net con s (s\<lparr>ws_waiters := (ws_waiters s)(u := Cancelling p)\<rparr>)"
| ws_cancel: "ws_waiters s u = Cancelling p \<Longrightarrow>
     watcher_step net con s (cancel (pc_commandID p) (s\<lparr>ws_waiters := (ws_waiters s)(u := Cancelled p)\<rparr>))"
| ws_snapshot: "i < length (ws_runners s) \<Longrightarrow> ws_runners s ! i = RTick \<Longrightarrow>
     snapshot_of s snapshot \<Longrightarrow>
     watcher_step net con s (set_runner i (after_snapshot snapshot) s)"
| ws_queue_failed: "i < length (ws_runners s) \<Longrightarrow> ws_runners s ! i = RSnapped snapshot \<Longrightarrow>
     tick_io net con snapshot (ws_tc s) (ws_world s) = (QueueFailed now, tc, w) \<Longrightarrow>
     watcher_step net con s (set_runner i (RExpire now snapshot) (s\<lparr>ws_tc := tc, ws_world := w\<rparr>))"
| ws_completed: "i < length (ws_runners s) \<Longrightarrow> ws_runners s ! i = RSnapped snapshot \<Longrightarrow>
     tick_io net con snapshot (ws_tc s) (ws_world s) = (Completed cs, tc, w) \<Longrightarrow>
     watcher_step net con s (set_runner i (RDeliver cs) (s\<lparr>ws_tc := tc, ws_world := w\<rparr>))"
| ws_expire: "i < length (ws_runners s) \<Longrightarrow> ws_runners s ! i = RExpire now snapshot \<Longrightarrow>
     watcher_step net con s (set_runner i RCheck (expireDeadlines now snapshot s))"
| ws_deliver: "i < length (ws_runners s) \<Longrightarrow> ws_runners s ! i = RDeliver cs \<Longrightarrow>
     watcher_step net con s (set_runner i RCheck (deliver cs s))"
| ws_check: "i < length (ws_runners s) \<Longrightarrow> ws_runners s ! i = RCheck \<Longrightarrow>
     watcher_step net con s (run_check i s)"
| ws_ticker: "i < length (ws_runners s) \<Longrightarrow> ws_runners s ! i = RSleep \<Longrightarrow>
     watcher_step net con s (set_runner i RTick s)"
| ws_world: "watcher_step net con s (s\<lparr>ws_world := w\<rparr>)"

inductive_cases watcher_stepE: "watcher_step net con s t"

text \<open>\<open>newCmdWatcher\<close>: no wait, no poller.\<close>

definition newCmdWatcher :: "token_cache \<Rightarrow> 'w \<Rightarrow> 'w watcher_state" where
  "newCmdWatcher tc w =
     \<lparr>ws_pending = [], ws_running = False, ws_runners = [], ws_waiters = (\<lambda>u. NotStarted), ws_next = 0,
      ws_sent = [], ws_tc = tc, ws_world = w\<rparr>"

definition watcher_init :: "'w watcher_state \<Rightarrow> bool" where
  "watcher_init s = (s = newCmdWatcher (ws_tc s) (ws_world s))"

section \<open>The invariant\<close>

text \<open>The entries of the map: each under its own id, of a caller that has not got a result.\<close>

definition entry_ok :: "'w watcher_state \<Rightarrow> string \<Rightarrow> pending_cmd \<Rightarrow> bool" where
  "entry_ok s cid p =
     (pc_commandID p = cid \<and> cid \<noteq> [] \<and> map_of (ws_sent s) (pc_uid p) = None
      \<and> (ws_waiters s (pc_uid p) = Waiting p \<or> ws_waiters s (pc_uid p) = Cancelling p))"

text \<open>A caller that waits without a result: its entry is in the map, or another wait for the same
  command was cancelled.\<close>

definition waiter_ok :: "'w watcher_state \<Rightarrow> nat \<Rightarrow> pending_cmd \<Rightarrow> bool" where
  "waiter_ok s u p =
     (map_of (ws_sent s) u \<noteq> None \<or> map_of (ws_pending s) (pc_commandID p) = Some p
      \<or> (\<exists>v q. v \<noteq> u \<and> ws_waiters s v = Cancelled q \<and> pc_commandID q = pc_commandID p))"

definition watcher_inv :: "'w watcher_state \<Rightarrow> bool" where
  "watcher_inv s =
     (wf_map (ws_pending s)
      \<and> (\<forall>cid p. map_of (ws_pending s) cid = Some p \<longrightarrow> entry_ok s cid p)
      \<and> distinct (map fst (ws_sent s)) \<and> (\<forall>u \<in> fst ` set (ws_sent s). u < ws_next s)
      \<and> length (ws_runners s) = (if ws_running s then 1 else 0)
      \<and> (ws_pending s \<noteq> [] \<longrightarrow> ws_running s)
      \<and> (\<forall>u. ws_next s \<le> u \<longrightarrow> ws_waiters s u = NotStarted)
      \<and> (\<forall>u p. ws_waiters s u = Waiting p \<or> ws_waiters s u = Cancelling p \<longrightarrow> pc_uid p = u)
      \<and> (\<forall>u p. ws_waiters s u = Waiting p \<longrightarrow> waiter_ok s u p))"

lemma watcher_invD:
  assumes "watcher_inv s"
  shows "wf_map (ws_pending s)"
    and "\<And>cid p. map_of (ws_pending s) cid = Some p \<Longrightarrow> entry_ok s cid p"
    and "distinct (map fst (ws_sent s))"
    and "\<And>u. u \<in> fst ` set (ws_sent s) \<Longrightarrow> u < ws_next s"
    and "length (ws_runners s) = (if ws_running s then 1 else 0)"
    and "ws_pending s \<noteq> [] \<Longrightarrow> ws_running s"
    and "\<And>u. ws_next s \<le> u \<Longrightarrow> ws_waiters s u = NotStarted"
    and "\<And>u p. ws_waiters s u = Waiting p \<or> ws_waiters s u = Cancelling p \<Longrightarrow> pc_uid p = u"
    and "\<And>u p. ws_waiters s u = Waiting p \<Longrightarrow> waiter_ok s u p"
  using assms unfolding watcher_inv_def by blast+

lemma watcher_invI:
  assumes "wf_map (ws_pending s)"
    and "\<And>cid p. map_of (ws_pending s) cid = Some p \<Longrightarrow> entry_ok s cid p"
    and "distinct (map fst (ws_sent s))"
    and "\<And>u. u \<in> fst ` set (ws_sent s) \<Longrightarrow> u < ws_next s"
    and "length (ws_runners s) = (if ws_running s then 1 else 0)"
    and "ws_pending s \<noteq> [] \<Longrightarrow> ws_running s"
    and "\<And>u. ws_next s \<le> u \<Longrightarrow> ws_waiters s u = NotStarted"
    and "\<And>u p. ws_waiters s u = Waiting p \<or> ws_waiters s u = Cancelling p \<Longrightarrow> pc_uid p = u"
    and "\<And>u p. ws_waiters s u = Waiting p \<Longrightarrow> waiter_ok s u p"
  shows "watcher_inv s"
  using assms unfolding watcher_inv_def by blast

text \<open>The invariant looks at these parts only.\<close>

lemma watcher_inv_cong:
  assumes "watcher_inv s"
    and "ws_pending t = ws_pending s" "ws_running t = ws_running s"
    and "length (ws_runners t) = length (ws_runners s)"
    and "ws_waiters t = ws_waiters s" "ws_next t = ws_next s" "ws_sent t = ws_sent s"
  shows "watcher_inv t"
  using assms(1) unfolding watcher_inv_def entry_ok_def waiter_ok_def assms(2-7) by blast

subsection \<open>Sending results\<close>

lemma resolve_cases:
  obtains (same) "resolve p r s = s"
  | (sent) cur where "map_of (ws_pending s) (pc_commandID p) = Some cur" "pc_uid cur = pc_uid p"
      "resolve p r s = s\<lparr>ws_sent := (pc_uid p, r) # ws_sent s,
         ws_pending := AList.delete (pc_commandID p) (ws_pending s)\<rparr>"
proof (cases "map_of (ws_pending s) (pc_commandID p)")
  case None
  then show ?thesis by (intro same) (simp add: resolve_def)
next
  case (Some cur)
  then show ?thesis
    using sent[OF Some] same by (cases "pc_uid cur = pc_uid p") (simp_all add: resolve_def)
qed

lemma delete_lookup: "map_of (AList.delete k m) k' = (if k' = k then None else map_of m k')"
  by (simp add: delete_conv')

lemma resolve_inv:
  assumes I: "watcher_inv s"
  shows "watcher_inv (resolve p r s)"
proof (cases rule: resolve_cases[of p r s])
  case same
  then show ?thesis using I by simp
next
  case (sent cur)
  let ?t = "resolve p r s"
  note D = watcher_invD[OF I]
  have cur: "entry_ok s (pc_commandID p) cur" using D(2) sent(1) .
  then have started: "ws_waiters s (pc_uid p) \<noteq> NotStarted" using sent(2) by (auto simp: entry_ok_def)
  have fresh: "map_of (ws_sent s) (pc_uid p) = None" using cur sent(2) by (simp add: entry_ok_def)
  have other: "pc_uid e \<noteq> pc_uid p"
    if "map_of (ws_pending s) cid = Some e" "cid \<noteq> pc_commandID p" for cid e
  proof
    assume "pc_uid e = pc_uid p"
    then have "e = cur" using D(2)[OF that(1)] cur sent(2) by (auto simp: entry_ok_def)
    then show False using D(2)[OF that(1)] cur that(2) by (simp add: entry_ok_def)
  qed
  have t: "ws_sent ?t = (pc_uid p, r) # ws_sent s" "ws_pending ?t = AList.delete (pc_commandID p) (ws_pending s)"
    "ws_running ?t = ws_running s" "ws_runners ?t = ws_runners s" "ws_waiters ?t = ws_waiters s"
    "ws_next ?t = ws_next s"
    by (simp_all add: sent(3))
  show ?thesis
  proof (rule watcher_invI, unfold t)
    show "wf_map (AList.delete (pc_commandID p) (ws_pending s))" using D(1) by (simp add: distinct_delete)
    show "entry_ok ?t cid e" if "map_of (AList.delete (pc_commandID p) (ws_pending s)) cid = Some e" for cid e
    proof -
      have "cid \<noteq> pc_commandID p" "map_of (ws_pending s) cid = Some e"
        using that by (auto simp: delete_lookup split: if_splits)
      then show ?thesis using D(2)[of cid e] other[of cid e] by (simp add: entry_ok_def t)
    qed
    show "distinct (map fst ((pc_uid p, r) # ws_sent s))" using D(3) fresh by (simp add: map_of_eq_None_iff)
    show "u < ws_next s" if "u \<in> fst ` set ((pc_uid p, r) # ws_sent s)" for u
      using that D(4) D(7)[of "pc_uid p"] started by (auto simp: not_le[symmetric])
    show "length (ws_runners s) = (if ws_running s then 1 else 0)" by (rule D(5))
    show "ws_running s" if "AList.delete (pc_commandID p) (ws_pending s) \<noteq> []"
      by (rule D(6)) (use that in auto)
    show "ws_waiters s u = NotStarted" if "ws_next s \<le> u" for u using D(7) that .
    show "pc_uid q = u" if "ws_waiters s u = Waiting q \<or> ws_waiters s u = Cancelling q" for u q
      using D(8) that .
    show "waiter_ok ?t u q" if w: "ws_waiters s u = Waiting q" for u q
    proof -
      have "map_of (ws_pending s) (pc_commandID q) = Some q \<Longrightarrow> pc_commandID q = pc_commandID p \<Longrightarrow> u = pc_uid p"
        using D(8)[of u q] w sent(1,2) by auto
      then show ?thesis using D(9)[OF w] by (auto simp: waiter_ok_def t delete_lookup)
    qed
  qed
qed

lemma deliver_inv: "watcher_inv s \<Longrightarrow> watcher_inv (deliver cs s)"
  by (induction cs s rule: deliver.induct) (auto intro: resolve_inv)

lemma expireDeadlines_inv: "watcher_inv s \<Longrightarrow> watcher_inv (expireDeadlines now ps s)"
  by (induction now ps s rule: expireDeadlines.induct) (simp_all add: resolve_inv)

lemma resolve_runners [simp]: "ws_runners (resolve p r s) = ws_runners s"
  by (auto simp: resolve_def split: option.splits)

lemma deliver_runners [simp]: "ws_runners (deliver cs s) = ws_runners s"
  by (induction cs s rule: deliver.induct) auto

lemma expireDeadlines_runners [simp]: "ws_runners (expireDeadlines now ps s) = ws_runners s"
  by (induction now ps s rule: expireDeadlines.induct) auto

subsection \<open>The callers and the poller\<close>

lemma waiter_ok_mono:
  assumes "waiter_ok s u p"
    and "map_of (ws_sent s) u \<noteq> None \<Longrightarrow> map_of (ws_sent t) u \<noteq> None"
    and "map_of (ws_pending s) (pc_commandID p) = Some p \<Longrightarrow> map_of (ws_pending t) (pc_commandID p) = Some p"
    and "\<And>v q. ws_waiters s v = Cancelled q \<Longrightarrow> ws_waiters t v = Cancelled q"
  shows "waiter_ok t u p"
  using assms unfolding waiter_ok_def by metis

lemma set_runner_inv: "watcher_inv s \<Longrightarrow> watcher_inv (set_runner i r s)"
  by (rule watcher_inv_cong[of s]) (auto simp: set_runner_def)

lemma run_check_inv:
  assumes I: "watcher_inv s" and i: "i < length (ws_runners s)"
  shows "watcher_inv (run_check i s)"
proof (cases "ws_pending s = []")
  case True
  let ?t = "s\<lparr>ws_running := False, ws_runners := []\<rparr>"
  note D = watcher_invD[OF I]
  have l: "length (ws_runners s) = 1" "i = 0" using D(5) i by (auto split: if_splits)
  have "waiter_ok ?t u p" if "ws_waiters s u = Waiting p" for u p
    by (rule waiter_ok_mono[OF D(9)[OF that]]) simp_all
  then have "watcher_inv ?t" using D True by (intro watcher_invI) simp_all
  then show ?thesis using True l by (simp add: run_check_def)
next
  case False
  then show ?thesis using set_runner_inv[OF I] by (simp add: run_check_def)
qed

lemma register_inv:
  assumes I: "watcher_inv s"
  shows "watcher_inv (register cid name deadline s)"
proof -
  let ?u = "ws_next s"
  let ?t = "register cid name deadline s"
  note D = watcher_invD[OF I]
  have new: "ws_waiters s ?u = NotStarted" by (rule D(7)) simp
  have unsent: "map_of (ws_sent s) ?u = None"
    using D(4) by (force simp: map_of_eq_None_iff)
  show ?thesis
  proof (cases "cid = [] \<or> map_of (ws_pending s) cid \<noteq> None")
    case True
    obtain err where t: "?t = s\<lparr>ws_next := Suc ?u, ws_waiters := (ws_waiters s)(?u := Refused err)\<rparr>"
    proof (cases "cid = []")
      case True
      show ?thesis by (rule that, simp add: register_def Let_def True)
    next
      case False
      with \<open>cid = [] \<or> map_of (ws_pending s) cid \<noteq> None\<close> show ?thesis
        by (intro that) (simp add: register_def Let_def)
    qed
    have "entry_ok ?t c p" if "map_of (ws_pending s) c = Some p" for c p
      using D(2)[OF that] new by (auto simp: entry_ok_def t)
    moreover have "waiter_ok ?t u p" if "ws_waiters s u = Waiting p" for u p
      by (rule waiter_ok_mono[OF D(9)[OF that]]) (auto simp: t new)
    ultimately show ?thesis
      using D by (intro watcher_invI) (auto simp: t less_Suc_eq split: if_splits)
  next
    case False
    define cmd where "cmd = \<lparr>pc_commandID = cid, pc_enrichName = name, pc_deadline = deadline, pc_uid = ?u\<rparr>"
    have t: "?t = s\<lparr>ws_next := Suc ?u, ws_waiters := (ws_waiters s)(?u := Waiting cmd),
        ws_pending := AList.update cid cmd (ws_pending s), ws_running := True,
        ws_runners := (if ws_running s then ws_runners s else ws_runners s @ [RTick])\<rparr>"
      using False by (simp add: register_def Let_def cmd_def)
    have e: "entry_ok ?t c p" if "map_of (AList.update cid cmd (ws_pending s)) c = Some p" for c p
    proof (cases "c = cid")
      case True
      then have "p = cmd" using that by (simp add: update_conv')
      then show ?thesis using False True unsent by (simp add: entry_ok_def t cmd_def)
    next
      case False
      then have "map_of (ws_pending s) c = Some p" using that by (simp add: update_conv')
      then show ?thesis using D(2) new by (fastforce simp: entry_ok_def t)
    qed
    have wt: "waiter_ok ?t u p" if "ws_waiters ?t u = Waiting p" for u p
    proof (cases "u = ?u")
      case True
      then have "p = cmd" using that by (simp add: t)
      then show ?thesis by (simp add: waiter_ok_def t update_conv' cmd_def)
    next
      case nu: False
      then have w: "ws_waiters s u = Waiting p" using that by (simp add: t)
      have "map_of (ws_pending s) (pc_commandID p) = Some p \<Longrightarrow> pc_commandID p \<noteq> cid" using False by auto
      then show ?thesis
        by (intro waiter_ok_mono[OF D(9)[OF w]]) (auto simp: t update_conv' new)
    qed
    have "length (ws_runners ?t) = 1" using D(5) by (simp add: t)
    then show ?thesis
      using D e wt by (intro watcher_invI) (auto simp: t distinct_update cmd_def less_Suc_eq split: if_splits)
  qed
qed

lemma receive_inv:
  assumes I: "watcher_inv s" and w: "ws_waiters s u = Waiting p" and r: "map_of (ws_sent s) u = Some r"
  shows "watcher_inv (s\<lparr>ws_waiters := (ws_waiters s)(u := Received p r)\<rparr>)"
proof -
  let ?t = "s\<lparr>ws_waiters := (ws_waiters s)(u := Received p r)\<rparr>"
  note D = watcher_invD[OF I]
  have "entry_ok ?t c q" if "map_of (ws_pending s) c = Some q" for c q
  proof -
    have "pc_uid q \<noteq> u" using D(2)[OF that] r by (auto simp: entry_ok_def)
    then show ?thesis using D(2)[OF that] by (simp add: entry_ok_def)
  qed
  moreover have "waiter_ok ?t v q" if "ws_waiters s v = Waiting q" for v q
    by (rule waiter_ok_mono[OF D(9)[OF that]]) (auto simp: w)
  moreover have "u < ws_next s" using D(7)[of u] w by (cases "u < ws_next s") auto
  ultimately show ?thesis
    using D by (intro watcher_invI) (auto split: if_splits)
qed

lemma ctx_done_inv:
  assumes I: "watcher_inv s" and w: "ws_waiters s u = Waiting p"
  shows "watcher_inv (s\<lparr>ws_waiters := (ws_waiters s)(u := Cancelling p)\<rparr>)"
proof -
  let ?t = "s\<lparr>ws_waiters := (ws_waiters s)(u := Cancelling p)\<rparr>"
  note D = watcher_invD[OF I]
  have "entry_ok ?t c q" if "map_of (ws_pending s) c = Some q" for c q
    using D(2)[OF that] w by (auto simp: entry_ok_def)
  moreover have "waiter_ok ?t v q" if "ws_waiters s v = Waiting q" for v q
    by (rule waiter_ok_mono[OF D(9)[OF that]]) (auto simp: w)
  moreover have "u < ws_next s" using D(7)[of u] w by (cases "u < ws_next s") auto
  ultimately show ?thesis
    using D D(8)[of u p] w by (intro watcher_invI) (auto split: if_splits)
qed

lemma cancel_inv:
  assumes I: "watcher_inv s" and w: "ws_waiters s u = Cancelling p"
  shows "watcher_inv (cancel (pc_commandID p) (s\<lparr>ws_waiters := (ws_waiters s)(u := Cancelled p)\<rparr>))"
proof -
  let ?t = "cancel (pc_commandID p) (s\<lparr>ws_waiters := (ws_waiters s)(u := Cancelled p)\<rparr>)"
  note D = watcher_invD[OF I]
  have uid: "pc_uid p = u" using D(8) w by blast
  have t: "ws_pending ?t = AList.delete (pc_commandID p) (ws_pending s)" "ws_sent ?t = ws_sent s"
    "ws_waiters ?t = (ws_waiters s)(u := Cancelled p)" "ws_running ?t = ws_running s"
    "ws_runners ?t = ws_runners s" "ws_next ?t = ws_next s"
    by (simp_all add: cancel_def)
  have e: "entry_ok ?t c q" if "map_of (AList.delete (pc_commandID p) (ws_pending s)) c = Some q" for c q
  proof -
    have c: "c \<noteq> pc_commandID p" "map_of (ws_pending s) c = Some q"
      using that by (auto simp: delete_lookup split: if_splits)
    have "pc_uid q \<noteq> u"
    proof
      assume "pc_uid q = u"
      then have "q = p" using D(2)[OF c(2)] w by (auto simp: entry_ok_def)
      then show False using D(2)[OF c(2)] c(1) by (simp add: entry_ok_def)
    qed
    then show ?thesis using D(2)[OF c(2)] by (simp add: entry_ok_def t)
  qed
  have wt: "waiter_ok ?t v q" if "((ws_waiters s)(u := Cancelled p)) v = Waiting q" for v q
  proof -
    have v: "v \<noteq> u" "ws_waiters s v = Waiting q" using that by (auto split: if_splits)
    show ?thesis
    proof (cases "pc_commandID q = pc_commandID p")
      case True
      then show ?thesis using v by (auto simp: waiter_ok_def t)
    next
      case False
      show ?thesis
        by (rule waiter_ok_mono[OF D(9)[OF v(2)]]) (auto simp: t delete_lookup w False)
    qed
  qed
  have u: "u < ws_next s" using D(7)[of u] w by (cases "u < ws_next s") auto
  have "AList.delete (pc_commandID p) (ws_pending s) \<noteq> [] \<Longrightarrow> ws_running s"
    by (rule D(6)) auto
  then show ?thesis
    using D e wt u by (intro watcher_invI) (auto simp: t distinct_delete split: if_splits)
qed

interpretation ws: invariant_system watcher_init "watcher_step net con" watcher_inv for net con
proof unfold_locales
  fix s :: "'a watcher_state"
  have "watcher_inv (newCmdWatcher tc w)" for tc :: token_cache and w :: 'a
    by (simp add: newCmdWatcher_def watcher_inv_def)
  then show "watcher_init s \<Longrightarrow> watcher_inv s" unfolding watcher_init_def by metis
next
  fix s t :: "'a watcher_state"
  assume I: "watcher_inv s" and st: "watcher_step net con s t"
  have world: "watcher_inv (s\<lparr>ws_tc := tc, ws_world := w\<rparr>)" "watcher_inv (s\<lparr>ws_world := w\<rparr>)" for tc w
    by (rule watcher_inv_cong[OF I]; simp)+
  from st show "watcher_inv t"
    by (cases rule: watcher_stepE)
      (auto simp: waitProvision_def waitTerminate_def
        intro: register_inv world receive_inv[OF I] ctx_done_inv[OF I] cancel_inv[OF I] set_runner_inv
          expireDeadlines_inv deliver_inv run_check_inv I)
qed

end
