(* ===== verification/Ticks.thy ===== *)
theory Ticks
  imports Watcher Recovery
begin

text \<open>
  What one tick of the command watcher does to the commands of its snapshot, whatever the
  other goroutines do in between: the specification \<open>command_outcome\<close> of the answer to one
  command, that \<open>tick_io\<close> and the delivery implement it, and the calls a tick makes.
\<close>

section \<open>The answer to one command\<close>

text \<open>
  From the listing of the queue, the time it ended, the listing of the servers: the result that
  the caller gets, or \<^const>\<open>None\<close> when it keeps waiting. The last entry of a listing counts.
\<close>

definition command_outcome ::
  "goerr + queue_status list \<Rightarrow> int \<Rightarrow> goerr + server list \<Rightarrow> pending_cmd \<Rightarrow> wait_result option" where
  "command_outcome lq now ls p =
     (if pc_deadline p < now then Some (failed (timeout_error p))
      else
     (case lq of Inl err \<Rightarrow> None
      | Inr queue \<Rightarrow>
     (case find (\<lambda>q. qs_ID q = pc_commandID p) (rev queue) of
        None \<Rightarrow> None
      | Some q \<Rightarrow>
          if IsFailure (qs_Status q) then
            Some (failed (Errorf ''kamatera: command %s ended %s: %s''
                    [AStr (pc_commandID p), AStr (qs_Status q), AStr (truncate_str (qs_Log q) 200)]))
          else if qs_Status q \<noteq> StatusComplete then None
          else if pc_enrichName p = [] then
            Some \<lparr>res_server = zero_server\<lparr>srv_Name := qs_Server q\<rparr>, res_err = None\<rparr>
          else
         (case ls of Inl err \<Rightarrow> None
          | Inr servers \<Rightarrow>
             (case find (\<lambda>s. srv_Name s = pc_enrichName p) (rev servers) of
                Some srv \<Rightarrow> Some \<lparr>res_server = srv, res_err = None\<rparr>
              | None \<Rightarrow> Some \<lparr>res_server = zero_server\<lparr>srv_Name := qs_Server q\<rparr>, res_err = Some
                  (Errorf ''kamatera: command %s reached terminal state but server %q not in /service/server/info''
                     [AStr (pc_commandID p), AStr (pc_enrichName p)])\<rparr>)))))"

text \<open>The completions that give each command of a list its answer.\<close>

fun completions :: "(pending_cmd \<Rightarrow> wait_result option) \<Rightarrow> pending_cmd list \<Rightarrow> completion list" where
  "completions f [] = []"
| "completions f (p # ps) =
     (case f p of None \<Rightarrow> completions f ps | Some r \<Rightarrow> \<lparr>cm_cmd = p, cm_result = r\<rparr> # completions f ps)"

text \<open>How a tick ends, under the mutex.\<close>

definition tick_end :: "pending_cmd list \<Rightarrow> tick_result \<Rightarrow> 'w watcher_state \<Rightarrow> 'w watcher_state" where
  "tick_end snapshot r s =
     (case r of QueueFailed now \<Rightarrow> expireDeadlines now snapshot s | Completed cs \<Rightarrow> deliver cs s)"

section \<open>The tick implements it\<close>

lemma last_update:
  "map_of (foldl (\<lambda>m x. AList.update (key x) x m) m xs) k =
     (case find (\<lambda>x. key x = k) (rev xs) of Some x \<Rightarrow> Some x | None \<Rightarrow> map_of m k)"
  by (induction xs rule: rev_induct) (auto simp: update_conv')

lemma queue_by_id_lookup: "map_of (queue_by_id queue) k = find (\<lambda>q. qs_ID q = k) (rev queue)"
  unfolding queue_by_id_def last_update[where key = qs_ID] by (simp split: option.splits)

lemma server_by_name_lookup: "map_of (server_by_name servers) k = find (\<lambda>s. srv_Name s = k) (rev servers)"
  unfolding server_by_name_def last_update[where key = srv_Name] by (simp split: option.splits)

lemma expireDeadlines_deliver:
  "expireDeadlines now ps s = deliver (completions (command_outcome (Inl e) now ls) ps) s"
  by (induction now ps s rule: expireDeadlines.induct) (simp_all add: command_outcome_def)

lemma classify_completions:
  "classify now m ps =
     (completions (classify_cmd now m) ps,
      map pc_enrichName (filter (\<lambda>p. pc_enrichName p \<noteq> [] \<and> (\<exists>r. classify_cmd now m p = Some r \<and> res_err r = None)) ps))"
  by (induction ps) (auto split: option.splits)

lemma map_enrich_completions:
  "map (enrich sm) (completions f ps) = completions (\<lambda>p. map_option (\<lambda>r. cm_result (enrich sm \<lparr>cm_cmd = p, cm_result = r\<rparr>)) (f p)) ps"
  by (induction ps) (auto simp: enrich_def split: option.splits)

lemma retainCompletions_completions:
  "retainCompletions (completions f ps) needs_no_server =
     completions (\<lambda>p. case f p of None \<Rightarrow> None
        | Some r \<Rightarrow> if res_err r \<noteq> None \<or> pc_enrichName p = [] then Some r else None) ps"
  by (induction ps) (auto simp: needs_no_server_def split: option.splits)

lemma completions_cong: "(\<And>p. p \<in> set ps \<Longrightarrow> f p = g p) \<Longrightarrow> completions f ps = completions g ps"
  by (induction ps) (auto split: option.splits)

lemma terminal_not_failure: "\<not> IsFailure s \<Longrightarrow> IsTerminal s = (s = StatusComplete)"
  using terminal_success_iff by blast

text \<open>Without enrichment: the outcome for a command that asks for none.\<close>

lemma classify_cmd_outcome:
  "classify_cmd now (queue_by_id queue) p = command_outcome (Inr queue) now ls (p\<lparr>pc_enrichName := []\<rparr>)"
  by (simp add: classify_cmd_def command_outcome_def queue_by_id_lookup timeout_error_def
      terminal_not_failure split: option.splits)

lemma outcome_same: "pc_enrichName p = [] \<Longrightarrow> p\<lparr>pc_enrichName := []\<rparr> = p"
  by (cases p) simp

lemma outcome_enriched:
  "command_outcome (Inr queue) now (Inr servers) p =
     map_option (\<lambda>r. cm_result (enrich (server_by_name servers) \<lparr>cm_cmd = p, cm_result = r\<rparr>))
       (classify_cmd now (queue_by_id queue) p)"
  by (simp add: classify_cmd_def command_outcome_def queue_by_id_lookup server_by_name_lookup enrich_def
      needs_no_server_def failed_def terminal_not_failure split: option.splits)

lemma outcome_deferred:
  "command_outcome (Inr queue) now (Inl err) p =
     (case classify_cmd now (queue_by_id queue) p of None \<Rightarrow> None
      | Some r \<Rightarrow> if res_err r \<noteq> None \<or> pc_enrichName p = [] then Some r else None)"
  by (simp add: classify_cmd_def command_outcome_def queue_by_id_lookup failed_def terminal_not_failure
      split: option.splits)

lemma outcome_unenriched:
  assumes "\<And>r. classify_cmd now (queue_by_id queue) p = Some r \<Longrightarrow> res_err r \<noteq> None \<or> pc_enrichName p = []"
  shows "command_outcome (Inr queue) now ls p = classify_cmd now (queue_by_id queue) p"
  using assms outcome_enriched[of queue now _ p] outcome_deferred[of queue now _ p]
  by (cases ls; cases "classify_cmd now (queue_by_id queue) p") (auto simp: enrich_def needs_no_server_def)

lemma enrich_unenriched:
  "completions (\<lambda>p. map_option (\<lambda>r. cm_result (enrich sm \<lparr>cm_cmd = p, cm_result = r\<rparr>)) (f p)) ps
     = completions f ps"
  if "\<And>p r. p \<in> set ps \<Longrightarrow> f p = Some r \<Longrightarrow> res_err r \<noteq> None \<or> pc_enrichName p = []"
proof (rule completions_cong)
  fix p
  assume "p \<in> set ps"
  then show "map_option (\<lambda>r. cm_result (enrich sm \<lparr>cm_cmd = p, cm_result = r\<rparr>)) (f p) = f p"
    using that by (cases "f p") (auto simp: enrich_def needs_no_server_def)
qed

lemma tick_io_result:
  assumes lq: "ListQueue net con tc w = (lq, tc1, w1)" and now: "rt_now net w1 = (now, w2)"
    and r: "tick_io net con snapshot tc w = (r, tc', w')"
  shows "r = (case lq of Inl err \<Rightarrow> QueueFailed now
    | Inr queue \<Rightarrow> Completed (completions (command_outcome lq now (fst (ListServers net con tc1 w2))) snapshot))"
proof (cases lq)
  case (Inl err)
  then show ?thesis using lq now r by (simp add: tick_io_def)
next
  case (Inr queue)
  let ?f = "classify_cmd now (queue_by_id queue)"
  let ?names = "snd (classify now (queue_by_id queue) snapshot)"
  obtain ls tc2 w3 where ls: "ListServers net con tc1 w2 = (ls, tc2, w3)" by (metis prod_cases3)
  note c = classify_completions[of now "queue_by_id queue" snapshot]
  have "r = Completed (completions (command_outcome lq now ls) snapshot)"
  proof (cases "?names = []")
    case True
    then have n: "res_err x \<noteq> None \<or> pc_enrichName p = []" if "p \<in> set snapshot" "?f p = Some x" for p x
      using that c by (auto simp: filter_empty_conv)
    have "r = Completed (map (enrich []) (completions ?f snapshot))"
      using lq now r Inr True c by (simp add: tick_io_def)
    then have "r = Completed (completions ?f snapshot)"
      unfolding map_enrich_completions using enrich_unenriched[OF n] by simp
    moreover have "completions (command_outcome lq now ls) snapshot = completions ?f snapshot"
      unfolding Inr by (intro completions_cong outcome_unenriched n)
    ultimately show ?thesis by simp
  next
    case False
    show ?thesis
    proof (cases ls)
      case (Inl err)
      let ?g = "command_outcome (Inr queue) now (Inl err)"
      have "retainCompletions (completions ?f snapshot) needs_no_server = completions ?g snapshot"
        unfolding retainCompletions_completions
        by (intro completions_cong) (simp add: outcome_deferred split: option.splits)
      then have "r = Completed (map (enrich []) (completions ?g snapshot))"
        using lq now r Inr False c ls Inl by (simp add: tick_io_def split: if_splits)
      moreover have "map (enrich []) (completions ?g snapshot) = completions ?g snapshot"
        unfolding map_enrich_completions
        by (rule enrich_unenriched) (auto simp: outcome_deferred split: option.splits if_splits)
      ultimately show ?thesis using Inr Inl by simp
    next
      case servers: (Inr servers)
      have "r = Completed (map (enrich (server_by_name servers)) (completions ?f snapshot))"
        using lq now r Inr False c ls servers by (simp add: tick_io_def split: if_splits)
      moreover have "map (enrich (server_by_name servers)) (completions ?f snapshot)
          = completions (command_outcome lq now ls) snapshot"
        unfolding map_enrich_completions Inr servers by (rule completions_cong) (simp add: outcome_enriched)
      ultimately show ?thesis by simp
    qed
  qed
  then show ?thesis using ls Inr by simp
qed

lemma tick_io_end:
  assumes lq: "ListQueue net con tc w = (lq, tc1, w1)" and now: "rt_now net w1 = (now, w2)"
    and r: "tick_io net con snapshot tc w = (r, tc', w')"
  shows "tick_end snapshot r s =
    deliver (completions (command_outcome lq now (fst (ListServers net con tc1 w2))) snapshot) s"
  using tick_io_result[OF assms] by (simp add: tick_end_def expireDeadlines_deliver split: sum.splits)

section \<open>Delivery\<close>

text \<open>A result once sent stays the result of its channel.\<close>

lemma resolve_sent_stays:
  assumes "watcher_inv s" and "map_of (ws_sent s) u = Some x"
  shows "map_of (ws_sent (resolve q r s)) u = Some x"
proof (cases rule: resolve_cases[of q r s])
  case (sent cur)
  then have "map_of (ws_sent s) (pc_uid q) = None"
    using watcher_invD(2)[OF assms(1) sent(1)] by (simp add: entry_ok_def)
  then show ?thesis using assms(2) sent(3) by auto
qed (use assms in simp)

lemma deliver_sent_stays:
  "watcher_inv s \<Longrightarrow> map_of (ws_sent s) u = Some x \<Longrightarrow> map_of (ws_sent (deliver cs s)) u = Some x"
  by (induction cs s rule: deliver.induct) (auto intro: resolve_inv resolve_sent_stays)

lemma resolve_gone: "map_of (ws_pending s) cid = None \<Longrightarrow> map_of (ws_pending (resolve q r s)) cid = None"
  by (cases rule: resolve_cases[of q r s]) (auto simp: delete_lookup)

lemma deliver_gone: "map_of (ws_pending s) cid = None \<Longrightarrow> map_of (ws_pending (deliver cs s)) cid = None"
  by (induction cs s rule: deliver.induct) (simp_all add: resolve_gone)

text \<open>A result for another command touches neither the entry nor the channel.\<close>

lemma resolve_other:
  assumes I: "watcher_inv s" and p: "map_of (ws_pending s) (pc_commandID p) = Some p"
    and q: "pc_commandID q \<noteq> pc_commandID p"
  shows "map_of (ws_pending (resolve q r s)) (pc_commandID p) = Some p"
proof (cases rule: resolve_cases[of q r s])
  case (sent cur)
  then show ?thesis using p q by (simp add: delete_lookup)
qed (use p in simp)

lemma deliver_completions:
  assumes "watcher_inv s" and "distinct (map pc_commandID ps)" and "p \<in> set ps"
    and "map_of (ws_pending s) (pc_commandID p) = Some p"
  shows "case f p of
      None \<Rightarrow> map_of (ws_pending (deliver (completions f ps) s)) (pc_commandID p) = Some p
    | Some r \<Rightarrow> map_of (ws_sent (deliver (completions f ps) s)) (pc_uid p) = Some r
        \<and> map_of (ws_pending (deliver (completions f ps) s)) (pc_commandID p) = None"
proof -
  have keep: "map_of (ws_pending (deliver (completions f qs) s)) (pc_commandID p) = Some p"
    if "pc_commandID p \<notin> pc_commandID ` set qs" "watcher_inv s"
      "map_of (ws_pending s) (pc_commandID p) = Some p" for qs and s :: "'a watcher_state"
    using that
  proof (induction qs arbitrary: s)
    case (Cons q qs)
    show ?case
    proof (cases "f q")
      case (Some r)
      have "map_of (ws_pending (resolve q r s)) (pc_commandID p) = Some p"
        using Cons.prems by (intro resolve_other) auto
      then show ?thesis using Cons.IH[of "resolve q r s"] Cons.prems Some by (simp add: resolve_inv)
    qed (use Cons in simp)
  qed simp
  show ?thesis
    using assms
  proof (induction ps arbitrary: s)
    case (Cons q qs)
    note I = Cons.prems(1)
    show ?case
    proof (cases "q = p")
      case True
      then have out: "pc_commandID p \<notin> pc_commandID ` set qs" using Cons.prems(2) by auto
      show ?thesis
      proof (cases "f p")
        case None
        then show ?thesis using keep[OF out I Cons.prems(4)] True by simp
      next
        case (Some r)
        let ?t = "resolve p r s"
        have t: "ws_sent ?t = (pc_uid p, r) # ws_sent s"
          "ws_pending ?t = AList.delete (pc_commandID p) (ws_pending s)"
          using Cons.prems(4) by (simp_all add: resolve_def)
        have "map_of (ws_sent (deliver cs ?t)) (pc_uid p) = Some r" for cs
          by (rule deliver_sent_stays[OF resolve_inv[OF I]]) (simp add: t)
        moreover have "map_of (ws_pending (deliver cs ?t)) (pc_commandID p) = None" for cs
          by (rule deliver_gone) (simp add: t delete_lookup)
        ultimately show ?thesis using Some True by simp
      qed
    next
      case False
      then have p: "p \<in> set qs" "pc_commandID q \<noteq> pc_commandID p" using Cons.prems(2,3) by auto
      have d: "distinct (map pc_commandID qs)" using Cons.prems(2) by simp
      show ?thesis
      proof (cases "f q")
        case None
        then show ?thesis using Cons.IH[OF I d p(1) Cons.prems(4)] by (simp cong: option.case_cong)
      next
        case (Some r)
        have "map_of (ws_pending (resolve q r s)) (pc_commandID p) = Some p"
          by (rule resolve_other[OF I Cons.prems(4) p(2)])
        then show ?thesis
          using Cons.IH[OF resolve_inv[OF I] d p(1)] Some by (simp cong: option.case_cong)
      qed
    qed
  qed simp
qed

section \<open>The calls of a tick\<close>

lemma ListQueue_log:
  assumes L: "logs_exchanges log net" and r: "ListQueue net c tc w = (out, tc', w')"
  shows "\<exists>xs. log w' = log w @ xs \<and> bearer_exchanges c ''/queue'' xs"
proof -
  obtain o1 s1 where b: "bearerGet net c ''/queue'' tc w = (o1, s1)" by (metis surj_pair)
  have "s1 = (tc', w')" using r b by (auto simp: ListQueue_def split: sum.splits)
  then show ?thesis using bearerGet_log[OF L] b by metis
qed

lemma bearer_exchanges_length: "bearer_exchanges c path xs \<Longrightarrow> length xs \<le> 4"
  using sum_length_filter_compl[of is_get xs] by (simp add: bearer_exchanges_def)

lemma tick_io_log:
  assumes L: "logs_exchanges log net" and r: "tick_io net con snapshot tc w = (out, tc', w')"
  shows "\<exists>xs ys. log w' = log w @ xs @ ys \<and> bearer_exchanges con ''/queue'' xs
    \<and> bearer_exchanges con ''/servers'' ys \<and> (ys = [] \<or> (\<exists>p \<in> set snapshot. pc_enrichName p \<noteq> []))"
proof -
  obtain lq tc1 w1 where q: "ListQueue net con tc w = (lq, tc1, w1)" by (metis prod_cases3)
  obtain now w2 where n: "rt_now net w1 = (now, w2)" by fastforce
  obtain ls tc2 w3 where s: "ListServers net con tc1 w2 = (ls, tc2, w3)" by (metis prod_cases3)
  obtain xs where xs: "log w1 = log w @ xs" "bearer_exchanges con ''/queue'' xs"
    using ListQueue_log[OF L q] by blast
  obtain ys where ys: "log w3 = log w2 @ ys" "bearer_exchanges con ''/servers'' ys"
    using ListServers_log[OF L s] by blast
  have l2: "log w2 = log w1" by (rule logs_now[OF L n])
  have none: "bearer_exchanges con ''/servers'' []" by (simp add: bearer_exchanges_def)
  have "w' = w2 \<or> w' = w3 \<and> (\<exists>p \<in> set snapshot. pc_enrichName p \<noteq> [])"
    using r q n s
    by (auto simp: tick_io_def classify_completions filter_empty_conv split: sum.splits prod.splits if_splits)
  then show ?thesis
  proof
    assume "w' = w2"
    then show ?thesis using xs l2 none by (intro exI[of _ xs] exI[of _ "[]"]) simp
  next
    assume "w' = w3 \<and> (\<exists>p \<in> set snapshot. pc_enrichName p \<noteq> [])"
    then show ?thesis using xs ys l2 by (intro exI[of _ xs] exI[of _ ys]) simp
  qed
qed

lemma ListQueue_time:
  assumes T: "net_keeps_time clk net" and r: "ListQueue net c tc w = (out, tc', w')"
  shows "clk w \<le> clk w'"
proof -
  obtain o1 s1 where b: "bearerGet net c ''/queue'' tc w = (o1, s1)" by (metis surj_pair)
  have "s1 = (tc', w')" using r b by (auto simp: ListQueue_def split: sum.splits)
  then show ?thesis using bearerGet_time[OF T] b by metis
qed

lemma tick_io_time:
  assumes T: "net_keeps_time clk net" and r: "tick_io net con snapshot tc w = (out, tc', w')"
  shows "clk w \<le> clk w'"
proof -
  obtain lq tc1 w1 where q: "ListQueue net con tc w = (lq, tc1, w1)" by (metis prod_cases3)
  obtain now w2 where n: "rt_now net w1 = (now, w2)" by fastforce
  obtain ls tc2 w3 where s: "ListServers net con tc1 w2 = (ls, tc2, w3)" by (metis prod_cases3)
  have "w' = w2 \<or> w' = w3"
    using r q n s by (auto simp: tick_io_def split: sum.splits prod.splits if_splits)
  moreover have "clk w \<le> clk w1" by (rule ListQueue_time[OF T q])
  moreover have "clk w2 \<le> clk w3"
  proof -
    obtain o1 tc0 w0 where b: "bearerGet net con ''/servers'' tc1 w2 = (o1, tc0, w0)" by (metis prod_cases3)
    then have "w0 = w3" using s by (auto simp: ListServers_def split: sum.splits option.splits)
    then show ?thesis using bearerGet_time[OF T b] by simp
  qed
  ultimately show ?thesis using net_time(3)[OF T n] by auto
qed

end
