(* ===== verification/Poller.thy ===== *)
theory Poller
  imports Ticks
begin

text \<open>
  The progress of the command watcher: the steps of its poller, that one is possible as long
  as a command is pending, and how many of them a command past its deadline can outlive. And
  the converse: a caller whose entry was deleted is never sent a result.
\<close>

text \<open>The steps of the poller: those that move it and start no wait.\<close>

definition poller_step ::
  "('w, 'z) net_scheme \<Rightarrow> console \<Rightarrow> 'w watcher_state \<Rightarrow> 'w watcher_state \<Rightarrow> bool" where
  "poller_step net con s t =
     (watcher_step net con s t \<and> ws_next t = ws_next s \<and> ws_runners t \<noteq> ws_runners s)"

lemma register_next [simp]: "ws_next (register cid name deadline s) = Suc (ws_next s)"
  by (simp add: register_def Let_def)

lemma set_runner_simps [simp]:
  "ws_pending (set_runner i r s) = ws_pending s" "ws_sent (set_runner i r s) = ws_sent s"
  "ws_world (set_runner i r s) = ws_world s" "ws_next (set_runner i r s) = ws_next s"
  "ws_runners (set_runner i r s) = (ws_runners s)[i := r]" "ws_waiters (set_runner i r s) = ws_waiters s"
  by (simp_all add: set_runner_def)

lemma resolve_simps [simp]:
  "ws_next (resolve p r s) = ws_next s" "ws_world (resolve p r s) = ws_world s"
  by (auto simp: resolve_def split: option.splits)

lemma deliver_simps [simp]: "ws_next (deliver cs s) = ws_next s" "ws_world (deliver cs s) = ws_world s"
  by (induction cs s rule: deliver.induct) auto

lemma expireDeadlines_simps [simp]:
  "ws_next (expireDeadlines now ps s) = ws_next s" "ws_world (expireDeadlines now ps s) = ws_world s"
  by (simp_all add: expireDeadlines_deliver[where e = undefined and ls = undefined])

section \<open>The poller is never stuck\<close>

lemma one_runner:
  assumes "watcher_inv s" and "ws_pending s \<noteq> []"
  obtains r where "ws_runners s = [r]"
  using watcher_invD(5,6)[OF assms(1)] assms(2) by (auto simp: length_Suc_conv)

lemma poller_moves:
  assumes I: "watcher_inv s" and p: "ws_pending s \<noteq> []"
  shows "\<exists>t. poller_step net con s t"
proof -
  obtain r where r: "ws_runners s = [r]" using one_runner[OF assms] .
  have i: "0 < length (ws_runners s)" and r0: "ws_runners s ! 0 = r" using r by simp_all
  have move: "\<exists>t. poller_step net con s t"
    if "watcher_step net con s t" "ws_next t = ws_next s" "ws_runners t = [r']" "r' \<noteq> r" for t r'
    unfolding poller_step_def by (rule exI[of _ t]) (simp add: that r)
  show ?thesis
  proof (cases r)
    case RTick
    have "map snd (ws_pending s) \<noteq> []" using p by simp
    then have "watcher_step net con s (set_runner 0 (RSnapped (map snd (ws_pending s))) s)"
      using ws_snapshot[OF i r0[unfolded RTick], of "map snd (ws_pending s)"] by simp
    then show ?thesis by (rule move) (simp add: r, simp add: r, simp add: RTick)
  next
    case (RSnapped snapshot)
    obtain out tc w where o: "tick_io net con snapshot (ws_tc s) (ws_world s) = (out, tc, w)" by (metis prod_cases3)
    show ?thesis
    proof (cases out)
      case (QueueFailed now)
      show ?thesis by (rule move[OF ws_queue_failed[OF i r0[unfolded RSnapped] o[unfolded QueueFailed]]]) (simp add: r, simp add: r, simp add: RSnapped)
    next
      case (Completed cs)
      show ?thesis by (rule move[OF ws_completed[OF i r0[unfolded RSnapped] o[unfolded Completed]]]) (simp add: r, simp add: r, simp add: RSnapped)
    qed
  next
    case (RExpire now snapshot)
    show ?thesis by (rule move[OF ws_expire[OF i r0[unfolded RExpire]]]) (simp add: r, simp add: r, simp add: RExpire)
  next
    case (RDeliver cs)
    show ?thesis by (rule move[OF ws_deliver[OF i r0[unfolded RDeliver]]]) (simp add: r, simp add: r, simp add: RDeliver)
  next
    case RCheck
    have "run_check 0 s = set_runner 0 RSleep s" using p by (simp add: run_check_def)
    then show ?thesis by (intro move[OF ws_check[OF i r0[unfolded RCheck]]]) (simp add: r, simp add: r, simp add: RCheck)
  next
    case RSleep
    show ?thesis by (rule move[OF ws_ticker[OF i r0[unfolded RSleep]]]) (simp add: r, simp add: r, simp add: RSleep)
  qed
qed

section \<open>A late command is answered\<close>

lemma resolve_settles:
  assumes I: "watcher_inv s" and p: "map_of (ws_pending s) (pc_commandID p) = Some p"
  shows "map_of (ws_pending (resolve q r s)) (pc_commandID p) = Some p
    \<or> map_of (ws_sent (resolve q r s)) (pc_uid p) \<noteq> None"
proof (cases rule: resolve_cases[of q r s])
  case (sent cur)
  then show ?thesis using p by (cases "pc_commandID q = pc_commandID p") (auto simp: delete_lookup)
qed (use p in simp)

lemma deliver_settles:
  assumes "watcher_inv s" and "map_of (ws_pending s) (pc_commandID p) = Some p"
  shows "map_of (ws_pending (deliver cs s)) (pc_commandID p) = Some p
    \<or> map_of (ws_sent (deliver cs s)) (pc_uid p) \<noteq> None"
  using assms
proof (induction cs s rule: deliver.induct)
  case (2 c cs s)
  let ?t = "resolve (cm_cmd c) (cm_result c) s"
  have I: "watcher_inv ?t" by (rule resolve_inv[OF 2(2)])
  show ?case
    using resolve_settles[OF 2(2,3), of "cm_cmd c" "cm_result c"] 2(1)[OF I] deliver_sent_stays[OF I, of "pc_uid p" _ cs]
    by auto
qed simp

lemma deliver_hits:
  assumes "watcher_inv s" and "map_of (ws_pending s) (pc_commandID p) = Some p"
    and "\<exists>c \<in> set cs. cm_cmd c = p"
  shows "map_of (ws_sent (deliver cs s)) (pc_uid p) \<noteq> None"
  using assms
proof (induction cs s rule: deliver.induct)
  case (2 c cs s)
  let ?t = "resolve (cm_cmd c) (cm_result c) s"
  have I: "watcher_inv ?t" by (rule resolve_inv[OF 2(2)])
  have stay: "map_of (ws_sent ?t) (pc_uid p) \<noteq> None \<Longrightarrow> ?case"
    using deliver_sent_stays[OF I, of "pc_uid p" _ cs] by auto
  show ?case
  proof (cases "cm_cmd c = p")
    case True
    have "map_of (ws_sent ?t) (pc_uid p) \<noteq> None" using 2(3) True by (simp add: resolve_def)
    then show ?thesis by (rule stay)
  next
    case False
    then have "\<exists>c \<in> set cs. cm_cmd c = p" using 2(4) by auto
    then show ?thesis
      using resolve_settles[OF 2(2,3), of "cm_cmd c" "cm_result c"] 2(1)[OF I] stay by auto
  qed
qed simp

lemma completions_hit: "p \<in> set ps \<Longrightarrow> f p \<noteq> None \<Longrightarrow> \<exists>c \<in> set (completions f ps). cm_cmd c = p"
  by (induction ps) (auto split: option.splits)

text \<open>The steps after which the command is answered at the latest.\<close>

fun stage :: "pending_cmd \<Rightarrow> runner \<Rightarrow> nat" where
  "stage p RTick = 3"
| "stage p (RSnapped ps) = (if p \<in> set ps then 2 else 7)"
| "stage p (RExpire now ps) = (if p \<in> set ps \<and> pc_deadline p < now then 1 else 6)"
| "stage p (RDeliver cs) = (if \<exists>c \<in> set cs. cm_cmd c = p then 1 else 6)"
| "stage p RCheck = 5"
| "stage p RSleep = 4"

lemma stage_bounds: "1 \<le> stage p r \<and> stage p r \<le> 7"
  by (cases r) auto

definition late :: "('w \<Rightarrow> int) \<Rightarrow> pending_cmd \<Rightarrow> 'w watcher_state \<Rightarrow> bool" where
  "late clk p s =
     (map_of (ws_pending s) (pc_commandID p) = Some p \<and> pc_deadline p < clk (ws_world s))"

definition rank :: "pending_cmd \<Rightarrow> 'w watcher_state \<Rightarrow> nat" where
  "rank p s = stage p (hd (ws_runners s))"

lemma poller_advance:
  assumes T: "net_keeps_time clk net" and I: "watcher_inv s" and l: "late clk p s"
    and st: "poller_step net con s t"
  shows "map_of (ws_sent t) (pc_uid p) \<noteq> None \<or> late clk p t \<and> rank p t < rank p s"
proof -
  have p: "map_of (ws_pending s) (pc_commandID p) = Some p" and d: "pc_deadline p < clk (ws_world s)"
    using l by (simp_all add: late_def)
  have ne: "ws_pending s \<noteq> []" using p by auto
  obtain r where r: "ws_runners s = [r]" using one_runner[OF I ne] .
  have calls: "clk (ws_world s) \<le> clk w \<and> (p \<in> set snapshot \<longrightarrow>
      (case out of QueueFailed now \<Rightarrow> pc_deadline p < now | Completed cs \<Rightarrow> (\<exists>c \<in> set cs. cm_cmd c = p)))"
    if o: "tick_io net con snapshot (ws_tc s) (ws_world s) = (out, tc, w)" for snapshot out tc w
  proof -
    obtain lq tc1 w1 where q: "ListQueue net con (ws_tc s) (ws_world s) = (lq, tc1, w1)" by (metis prod_cases3)
    obtain now w2 where n: "rt_now net w1 = (now, w2)" by fastforce
    have now: "pc_deadline p < now" using ListQueue_time[OF T q] net_time(3)[OF T n] d by linarith
    have "command_outcome lq now ls p \<noteq> None" for ls using now by (simp add: command_outcome_def)
    then show ?thesis
      using tick_io_time[OF T o] tick_io_result[OF q n o] now completions_hit[of p snapshot]
      by (auto split: sum.splits)
  qed
  from st have w: "watcher_step net con s t" "ws_next t = ws_next s" "ws_runners t \<noteq> ws_runners s"
    by (simp_all add: poller_step_def)
  from w(1) show ?thesis
  proof (cases rule: watcher_step.cases)
    case (ws_snapshot i snapshot)
    have "p \<in> set (map snd (ws_pending s))" using p by (force dest: map_of_SomeD)
    then have "p \<in> set snapshot" using ws_snapshot(4) unfolding snapshot_of_def by (metis mset_eq_setD)
    then show ?thesis using ws_snapshot r p d by (auto simp: late_def rank_def)
  next
    case (ws_queue_failed i snapshot now tc w)
    then show ?thesis using calls[OF ws_queue_failed(4)] r p d by (auto simp: late_def rank_def)
  next
    case (ws_completed i snapshot cs tc w)
    then show ?thesis using calls[OF ws_completed(4)] r p d by (auto simp: late_def rank_def)
  next
    case (ws_expire i now snapshot)
    let ?cs = "completions (command_outcome (Inl undefined) now undefined) snapshot"
    have e: "expireDeadlines now snapshot s = deliver ?cs s" by (rule expireDeadlines_deliver)
    have "map_of (ws_sent (deliver ?cs s)) (pc_uid p) \<noteq> None" if "p \<in> set snapshot" "pc_deadline p < now"
      by (intro deliver_hits[OF I p] completions_hit that) (simp add: command_outcome_def that)
    then show ?thesis
      using deliver_settles[OF I p, of ?cs] ws_expire r d by (auto simp: late_def rank_def e)
  next
    case (ws_deliver i cs)
    then show ?thesis
      using deliver_hits[OF I p, of cs] deliver_settles[OF I p, of cs] r d by (auto simp: late_def rank_def)
  next
    case (ws_check i)
    then show ?thesis using ne r p d by (auto simp: late_def rank_def run_check_def)
  next
    case (ws_ticker i)
    then show ?thesis using r p d by (auto simp: late_def rank_def)
  qed (use w in \<open>simp_all add: waitProvision_def waitTerminate_def cancel_def\<close>)
qed

lemma watcher_sent_stays:
  assumes I: "watcher_inv s" and st: "watcher_step net con s t" and x: "map_of (ws_sent s) u = Some x"
  shows "map_of (ws_sent t) u = Some x"
  using st
proof (cases rule: watcher_step.cases)
  case (ws_expire i now snapshot)
  then show ?thesis
    using deliver_sent_stays[OF I x] by (simp add: expireDeadlines_deliver[where e = undefined and ls = undefined])
next
  case (ws_deliver i cs)
  then show ?thesis using deliver_sent_stays[OF I x] by simp
qed (use x in \<open>simp_all add: waitProvision_def waitTerminate_def register_def cancel_def run_check_def Let_def\<close>)

lemma poller_run:
  assumes T: "net_keeps_time clk net" and I: "watcher_inv s" and l: "late clk p s"
    and run: "(poller_step net con ^^ n) s t"
  shows "watcher_inv t
    \<and> (map_of (ws_sent t) (pc_uid p) \<noteq> None \<or> late clk p t \<and> rank p t + n \<le> rank p s)"
  using run
proof (induction n arbitrary: t)
  case 0
  then show ?case using I l by simp
next
  case (Suc n)
  obtain m where m: "(poller_step net con ^^ n) s m" "poller_step net con m t"
    using Suc.prems by (auto elim: relpowp_Suc_E)
  have st: "watcher_step net con m t" using m(2) by (simp add: poller_step_def)
  have Im: "watcher_inv m" using Suc.IH[OF m(1)] by blast
  then have It: "watcher_inv t" using st by (rule ws.step_inv)
  show ?case
  proof (cases "map_of (ws_sent m) (pc_uid p)")
    case (Some x)
    then show ?thesis using watcher_sent_stays[OF Im st] It by auto
  next
    case None
    then have "late clk p m" "rank p m + n \<le> rank p s" using Suc.IH[OF m(1)] by auto
    then show ?thesis using poller_advance[OF T Im _ m(2)] It by fastforce
  qed
qed

section \<open>A caller without an entry is not answered\<close>

definition abandoned :: "nat \<Rightarrow> 'w watcher_state \<Rightarrow> bool" where
  "abandoned u s =
     (u < ws_next s \<and> u \<notin> fst ` set (ws_sent s) \<and> u \<notin> (\<lambda>x. pc_uid (snd x)) ` set (ws_pending s))"

lemma delete_subset: "set (AList.delete k m) \<subseteq> set m"
  by (simp add: delete_eq_filter filter_is_subset)

lemma resolve_abandoned:
  assumes a: "abandoned u s"
  shows "abandoned u (resolve p r s)"
proof (cases rule: resolve_cases[of p r s])
  case (sent cur)
  have "(pc_commandID p, cur) \<in> set (ws_pending s)" using sent(1) by (rule map_of_SomeD)
  then have "u \<noteq> pc_uid p" using a sent(2) by (force simp: abandoned_def)
  then show ?thesis using a sent(3) delete_subset[of "pc_commandID p" "ws_pending s"] by (auto simp: abandoned_def)
qed (use a in simp)

lemma deliver_abandoned: "abandoned u s \<Longrightarrow> abandoned u (deliver cs s)"
  by (induction cs s rule: deliver.induct) (simp_all add: resolve_abandoned)

lemma update_subset: "set (AList.update k v m) \<subseteq> insert (k, v) (set m)"
  by (induction m) auto

lemma register_abandoned:
  assumes a: "abandoned u s"
  shows "abandoned u (register cid name deadline s)"
  using a
  by (auto simp: abandoned_def register_def Let_def dest!: subsetD[OF update_subset])

lemma step_abandoned:
  assumes st: "watcher_step net con s t" and a: "abandoned u s"
  shows "abandoned u t"
  using st
proof (cases rule: watcher_step.cases)
  case (ws_provision now w1 cid name timeout)
  have "abandoned u (s\<lparr>ws_world := w1\<rparr>)" using a by (simp add: abandoned_def)
  then show ?thesis unfolding ws_provision waitProvision_def by (rule register_abandoned)
next
  case (ws_terminate now w1 cid timeout)
  have "abandoned u (s\<lparr>ws_world := w1\<rparr>)" using a by (simp add: abandoned_def)
  then show ?thesis unfolding ws_terminate waitTerminate_def by (rule register_abandoned)
next
  case (ws_cancel v p)
  then show ?thesis
    using a delete_subset[of "pc_commandID p" "ws_pending s"] by (auto simp: abandoned_def cancel_def)
next
  case (ws_expire i now snapshot)
  then show ?thesis
    using deliver_abandoned[OF a]
    by (simp add: expireDeadlines_deliver[where e = undefined and ls = undefined] abandoned_def)
next
  case (ws_deliver i cs)
  then show ?thesis using deliver_abandoned[OF a, of cs] by (simp add: abandoned_def)
qed (use a in \<open>simp_all add: abandoned_def run_check_def\<close>)

lemma steps_abandoned:
  assumes "(watcher_step net con)\<^sup>*\<^sup>* s t" and "abandoned u s"
  shows "map_of (ws_sent t) u = None"
proof -
  have "abandoned u t" using assms by (induction rule: rtranclp_induct) (auto intro: step_abandoned)
  then show ?thesis by (auto simp: abandoned_def map_of_eq_None_iff)
qed

end
