(* ===== verification/CloudClient.thy ===== *)
theory CloudClient
  imports Client Interfaces Poller
begin

text \<open>
  The client as the controller holds it: \<open>httpClient\<close> of \<open>internal/kamatera/client.go\<close> as the
  interface \<open>Client\<close>. Its two waits block in the watcher; here the caller is alone with the
  poller, and \<open>wait_reaches\<close> shows that what a wait returns is a run of the watcher's steps.
  The state of a call is the token cache with the world.
\<close>

section \<open>A wait alone with the poller\<close>

text \<open>The result that a tick brings to the one command of its snapshot.\<close>

definition tick_answer :: "pending_cmd \<Rightarrow> tick_result \<Rightarrow> wait_result option" where
  "tick_answer p r =
     (case r of
        QueueFailed now \<Rightarrow> if now > pc_deadline p then Some (failed (timeout_error p)) else None
      | Completed cs \<Rightarrow> map_option cm_result (find (\<lambda>c. cm_cmd c = p) cs))"

text \<open>A tick, and the poller's wait for the ticker, in which the caller's context may end.\<close>

definition wait_round ::
  "('w, 'z) net_scheme \<Rightarrow> http_client \<Rightarrow> console \<Rightarrow> pending_cmd \<Rightarrow> token_cache \<times> 'w
     \<Rightarrow> (wait_result + unit) \<times> token_cache \<times> 'w" where
  "wait_round net hc con p s =
     (case tick_io net con [p] (fst s) (snd s) of (r, tc1, w1) \<Rightarrow>
     (case tick_answer p r of
        Some res \<Rightarrow> (Inl res, tc1, w1)
      | None \<Rightarrow>
     (case rt_wait net (hc_pollInterval hc) w1 of
        (Some err, w2) \<Rightarrow> (Inl (failed err), tc1, w2)
      | (None, w2) \<Rightarrow> (Inr (), tc1, w2))))"

definition await ::
  "('w, 'z) net_scheme \<Rightarrow> http_client \<Rightarrow> console \<Rightarrow> pending_cmd \<Rightarrow> token_cache \<times> 'w
     \<Rightarrow> (wait_result \<times> token_cache \<times> 'w) option" where
  "await net hc con p s = poll (wait_round net hc con p) s"

text \<open>\<open>register\<close> of an idle watcher: refused, or the wait.\<close>

definition register_alone ::
  "('w, 'z) net_scheme \<Rightarrow> http_client \<Rightarrow> console \<Rightarrow> string \<Rightarrow> string \<Rightarrow> int \<Rightarrow> token_cache \<times> 'w
     \<Rightarrow> (wait_result \<times> token_cache \<times> 'w) option" where
  "register_alone net hc con commandID enrichName timeout s =
     (case rt_now net (snd s) of (now, w1) \<Rightarrow>
     (case ws_waiters (register commandID enrichName (now + timeout) (newCmdWatcher (fst s) w1)) 0 of
        Refused err \<Rightarrow> Some (failed err, fst s, w1)
      | Waiting p \<Rightarrow> await net hc con p (fst s, w1)
      | _ \<Rightarrow> None))"

definition WaitProvision ::
  "('w, 'z) net_scheme \<Rightarrow> http_client \<Rightarrow> console \<Rightarrow> string \<Rightarrow> string \<Rightarrow> int \<Rightarrow> token_cache \<times> 'w
     \<Rightarrow> ((goerr + server) \<times> token_cache \<times> 'w) option" where
  "WaitProvision net hc con commandID name timeout s =
     map_option (\<lambda>(r, s1). (case res_err r of Some err \<Rightarrow> Inl err | None \<Rightarrow> Inr (res_server r), s1))
       (register_alone net hc con commandID name timeout s)"

definition WaitTerminate ::
  "('w, 'z) net_scheme \<Rightarrow> http_client \<Rightarrow> console \<Rightarrow> string \<Rightarrow> int \<Rightarrow> token_cache \<times> 'w
     \<Rightarrow> (goerr option \<times> token_cache \<times> 'w) option" where
  "WaitTerminate net hc con commandID timeout s =
     map_option (\<lambda>(r, s1). (res_err r, s1)) (register_alone net hc con commandID [] timeout s)"

text \<open>\<open>httpClient\<close> as \<open>Client\<close>.\<close>

definition httpClient_as_Client ::
  "('w, 'z) net_scheme \<Rightarrow> http_client \<times> console \<Rightarrow> (token_cache \<times> 'w) kam_client" where
  "httpClient_as_Client net hcc =
     \<lparr>kam_CreateServer = (\<lambda>req s. CreateServer net (fst hcc) (snd hcc) req s),
      kam_WaitProvision = WaitProvision net (fst hcc) (snd hcc),
      kam_WaitTerminate = WaitTerminate net (fst hcc) (snd hcc),
      kam_FindServerByName = (\<lambda>name s. FindServerByName net (snd hcc) name (fst s) (snd s)),
      kam_TerminateServer = (\<lambda>i s. case TerminateServer net (fst hcc) i (snd s) of (r, w1) \<Rightarrow> (r, fst s, w1))\<rparr>"

lemmas wait_defs = WaitProvision_def WaitTerminate_def register_alone_def await_def

section \<open>It is a run of the watcher\<close>

text \<open>The state between two rounds, with the entry and its caller.\<close>

definition alone :: "pending_cmd \<Rightarrow> token_cache \<times> 'w \<Rightarrow> runner \<Rightarrow> 'w watcher_state" where
  "alone p s r =
     \<lparr>ws_pending = [(pc_commandID p, p)], ws_running = True, ws_runners = [r],
      ws_waiters = (\<lambda>u. NotStarted)(0 := Waiting p), ws_next = 1, ws_sent = [], ws_tc = fst s,
      ws_world = snd s\<rparr>"

lemma register_new:
  "ws_waiters (register cid name d (newCmdWatcher tc w)) 0 =
     (if cid = [] then Refused (Errorf ''kamatera: wait registered with empty commandID'' [])
      else Waiting \<lparr>pc_commandID = cid, pc_enrichName = name, pc_deadline = d, pc_uid = 0\<rparr>)"
  by (simp add: register_def newCmdWatcher_def Let_def)

lemma register_alone_state:
  "cid \<noteq> [] \<Longrightarrow> register cid name d (newCmdWatcher tc w) =
     alone \<lparr>pc_commandID = cid, pc_enrichName = name, pc_deadline = d, pc_uid = 0\<rparr> (tc, w) RTick"
  by (simp add: register_def newCmdWatcher_def alone_def Let_def)

lemma tick_answer_outcome:
  assumes q: "ListQueue net con tc w = (lq, tc1, w1)" and n: "rt_now net w1 = (now, w2)"
    and r: "tick_io net con [p] tc w = (r, tc', w')"
  shows "tick_answer p r = command_outcome lq now (fst (ListServers net con tc1 w2)) p"
  using tick_io_result[OF q n r]
  by (auto simp: tick_answer_def command_outcome_def split: sum.splits option.splits)

lemma tick_end_alone:
  assumes "tick_io net con [p] tc w = (r, tc', w')" and "pc_uid p = 0"
  shows "tick_end [p] r (alone p s x) =
    (case tick_answer p r of None \<Rightarrow> alone p s x
     | Some res \<Rightarrow> (alone p s x)\<lparr>ws_sent := [(0, res)], ws_pending := []\<rparr>)"
proof -
  obtain lq tc1 w1 where q: "ListQueue net con tc w = (lq, tc1, w1)" by (metis prod_cases3)
  obtain now w2 where n: "rt_now net w1 = (now, w2)" by fastforce
  show ?thesis
    unfolding tick_io_end[OF q n assms(1)] tick_answer_outcome[OF q n assms(1)]
    using assms(2) by (simp add: resolve_def alone_def split: option.splits)
qed

lemma tick_reaches:
  assumes R: "reachable watcher_init (watcher_step net con) (alone p s RTick)"
    and r: "tick_io net con [p] (fst s) (snd s) = (r, tc, w)"
  shows "\<exists>x. reachable watcher_init (watcher_step net con) (set_runner 0 RCheck (tick_end [p] r (alone p (tc, w) x)))"
proof -
  have sel: "ws_runners (alone p s x) = [x]" "ws_pending (alone p s x) = [(pc_commandID p, p)]"
    "ws_tc (alone p s x) = fst s" "ws_world (alone p s x) = snd s" for s :: "token_cache \<times> 'a" and x
    by (simp_all add: alone_def)
  have move: "set_runner 0 y ((alone p s x)\<lparr>ws_tc := tc, ws_world := w\<rparr>) = alone p (tc, w) y" for x y
    by (simp add: alone_def set_runner_def)
  have "watcher_step net con (alone p s RTick) (set_runner 0 (RSnapped [p]) (alone p s RTick))"
    using ws_snapshot[of 0 "alone p s RTick" "[p]" net con] by (simp add: sel)
  moreover have "set_runner 0 (RSnapped [p]) (alone p s RTick) = alone p s (RSnapped [p])"
    by (simp add: alone_def set_runner_def)
  ultimately have R1: "reachable watcher_init (watcher_step net con) (alone p s (RSnapped [p]))"
    using R by (metis reach_step)
  show ?thesis
  proof (cases r)
    case (QueueFailed now)
    have "watcher_step net con (alone p s (RSnapped [p])) (alone p (tc, w) (RExpire now [p]))"
      using ws_queue_failed[of 0 "alone p s (RSnapped [p])" "[p]" net con now tc w] r QueueFailed
      by (simp add: sel move)
    moreover have "watcher_step net con (alone p (tc, w) (RExpire now [p]))
        (set_runner 0 RCheck (expireDeadlines now [p] (alone p (tc, w) (RExpire now [p]))))"
      by (rule ws_expire) (simp_all add: sel)
    ultimately have "reachable watcher_init (watcher_step net con)
        (set_runner 0 RCheck (expireDeadlines now [p] (alone p (tc, w) (RExpire now [p]))))"
      using R1 by (blast intro: reach_step)
    then show ?thesis unfolding tick_end_def QueueFailed by (intro exI) simp
  next
    case (Completed cs)
    have "watcher_step net con (alone p s (RSnapped [p])) (alone p (tc, w) (RDeliver cs))"
      using ws_completed[of 0 "alone p s (RSnapped [p])" "[p]" net con cs tc w] r Completed
      by (simp add: sel move)
    moreover have "watcher_step net con (alone p (tc, w) (RDeliver cs))
        (set_runner 0 RCheck (deliver cs (alone p (tc, w) (RDeliver cs))))"
      by (rule ws_deliver) (simp_all add: sel)
    ultimately have "reachable watcher_init (watcher_step net con)
        (set_runner 0 RCheck (deliver cs (alone p (tc, w) (RDeliver cs))))"
      using R1 by (blast intro: reach_step)
    then show ?thesis unfolding tick_end_def Completed by (intro exI) simp
  qed
qed

text \<open>The steps between two rounds: the poller sees a pending command, waits and ticks.\<close>

lemma round_reaches:
  assumes R: "reachable watcher_init (watcher_step net con) (alone p s RTick)" and u: "pc_uid p = 0"
    and r: "wait_round net hc con p s = (Inr (), s')"
  shows "reachable watcher_init (watcher_step net con) (alone p s' RTick)"
proof -
  obtain tr tc w where t: "tick_io net con [p] (fst s) (snd s) = (tr, tc, w)" by (metis prod_cases3)
  have n: "tick_answer p tr = None" and s': "\<exists>w2. s' = (tc, w2)"
    using r t by (auto simp: wait_round_def split: option.splits prod.splits)
  obtain w2 where w2: "s' = (tc, w2)" using s' ..
  obtain x where "reachable watcher_init (watcher_step net con) (set_runner 0 RCheck (alone p (tc, w) x))"
    using tick_reaches[OF R t] tick_end_alone[OF t u, of "(tc, w)"] n by auto
  then have "reachable watcher_init (watcher_step net con) (alone p (tc, w) RCheck)"
    by (simp add: alone_def set_runner_def)
  moreover have "watcher_step net con (alone p (tc, w) RCheck) (alone p (tc, w) RSleep)"
    using ws_check[of 0 "alone p (tc, w) RCheck" net con] by (simp add: alone_def run_check_def set_runner_def)
  moreover have "watcher_step net con (alone p (tc, w) RSleep) (alone p (tc, w2) RSleep)"
    using ws_world[of net con "alone p (tc, w) RSleep" w2] by (simp add: alone_def)
  moreover have "watcher_step net con (alone p (tc, w2) RSleep) (alone p (tc, w2) RTick)"
    using ws_ticker[of 0 "alone p (tc, w2) RSleep" net con] by (simp add: alone_def set_runner_def)
  ultimately show ?thesis unfolding w2 by (blast intro: reach_step)
qed

lemma last_round_reaches:
  assumes R: "reachable watcher_init (watcher_step net con) (alone p s RTick)" and u: "pc_uid p = 0"
    and r: "wait_round net hc con p s = (Inl res, s')"
  shows "\<exists>t. reachable watcher_init (watcher_step net con) t
    \<and> (ws_waiters t 0 = Received p res \<or> ws_waiters t 0 = Cancelled p \<and> res_err res \<noteq> None)"
proof -
  obtain tr tc w where t: "tick_io net con [p] (fst s) (snd s) = (tr, tc, w)" by (metis prod_cases3)
  obtain x where x: "reachable watcher_init (watcher_step net con) (set_runner 0 RCheck (tick_end [p] tr (alone p (tc, w) x)))"
    using tick_reaches[OF R t] by blast
  show ?thesis
  proof (cases "tick_answer p tr")
    case (Some a)
    then have a: "a = res" using r t by (simp add: wait_round_def)
    let ?t = "set_runner 0 RCheck ((alone p (tc, w) x)\<lparr>ws_sent := [(0, res)], ws_pending := []\<rparr>)"
    have "reachable watcher_init (watcher_step net con) ?t"
      using x tick_end_alone[OF t u, of "(tc, w)"] Some a by simp
    moreover have "watcher_step net con ?t (?t\<lparr>ws_waiters := (ws_waiters ?t)(0 := Received p res)\<rparr>)"
      by (rule ws_receive) (simp_all add: alone_def set_runner_def)
    ultimately have "reachable watcher_init (watcher_step net con) (?t\<lparr>ws_waiters := (ws_waiters ?t)(0 := Received p res)\<rparr>)"
      by (rule reach_step)
    then show ?thesis by (intro exI conjI) auto
  next
    case None
    then have e: "res_err res \<noteq> None" using r t by (auto simp: wait_round_def failed_def split: option.splits prod.splits)
    let ?t = "set_runner 0 RCheck (alone p (tc, w) x)"
    let ?u = "?t\<lparr>ws_waiters := (ws_waiters ?t)(0 := Cancelling p)\<rparr>"
    let ?v = "cancel (pc_commandID p) (?u\<lparr>ws_waiters := (ws_waiters ?u)(0 := Cancelled p)\<rparr>)"
    have "reachable watcher_init (watcher_step net con) ?t" using x tick_end_alone[OF t u, of "(tc, w)"] None by simp
    moreover have "watcher_step net con ?t ?u" by (rule ws_ctx_done) (simp add: alone_def set_runner_def)
    moreover have "watcher_step net con ?u ?v" by (rule ws_cancel) simp
    ultimately have "reachable watcher_init (watcher_step net con) ?v" by (blast intro: reach_step)
    moreover have "ws_waiters ?v 0 = Cancelled p" by (simp add: cancel_def)
    ultimately show ?thesis using e by blast
  qed
qed

lemma wait_reaches:
  assumes a: "register_alone net hc con cid name timeout s = Some (res, s')" and c: "cid \<noteq> []"
  shows "\<exists>t p. reachable watcher_init (watcher_step net con) t \<and> pc_commandID p = cid \<and> pc_enrichName p = name
    \<and> (ws_waiters t 0 = Received p res \<or> ws_waiters t 0 = Cancelled p \<and> res_err res \<noteq> None)"
proof -
  obtain now w1 where n: "rt_now net (snd s) = (now, w1)" by fastforce
  define p where "p = \<lparr>pc_commandID = cid, pc_enrichName = name, pc_deadline = now + timeout, pc_uid = 0\<rparr>"
  let ?R = "\<lambda>s. reachable watcher_init (watcher_step net con) (alone p s RTick)"
  let ?s0 = "newCmdWatcher (fst s) (snd s)"
  have "watcher_init ?s0" by (simp add: watcher_init_def newCmdWatcher_def)
  moreover have "watcher_step net con ?s0 (waitProvision cid name (now + timeout) (?s0\<lparr>ws_world := w1\<rparr>))"
    by (rule ws_provision) (simp add: newCmdWatcher_def n)
  moreover have "waitProvision cid name (now + timeout) (?s0\<lparr>ws_world := w1\<rparr>) = alone p (fst s, w1) RTick"
    using register_alone_state[OF c, of name "now + timeout" "fst s" w1]
    by (simp add: waitProvision_def newCmdWatcher_def p_def)
  ultimately have R: "?R (fst s, w1)" by (metis reach_init reach_step)
  have "await net hc con p (fst s, w1) = Some (res, s')"
    using a c n by (simp add: register_alone_def register_new p_def)
  then have "\<exists>s0. ?R s0 \<and> wait_round net hc con p s0 = (Inl res, s')"
    unfolding await_def
    by (rule poll_last[where I = ?R]) (use R round_reaches[of net con p _ hc] in \<open>auto simp: p_def\<close>)
  then obtain s0 where "?R s0" "wait_round net hc con p s0 = (Inl res, s')" by blast
  from last_round_reaches[OF this(1) _ this(2)] show ?thesis by (auto simp: p_def)
qed

section \<open>What a wait sends, and that it returns\<close>

definition watch_exchange :: "console \<Rightarrow> exchange \<Rightarrow> bool" where
  "watch_exchange con x = (console_exchange con ''/queue'' x \<or> console_exchange con ''/servers'' x)"

definition watched :: "('w \<Rightarrow> exchange list) \<Rightarrow> console \<Rightarrow> token_cache \<times> 'w \<Rightarrow> token_cache \<times> 'w \<Rightarrow> bool" where
  "watched log con s s' = (\<exists>xs. log (snd s') = log (snd s) @ xs \<and> list_all (watch_exchange con) xs)"

lemma watched_same: "log (snd s') = log (snd s) \<Longrightarrow> watched log con s s'"
  by (simp add: watched_def)

lemma watched_trans:
  assumes "watched log con s1 s2" and "watched log con s2 s3"
  shows "watched log con s1 s3"
proof -
  obtain xs ys where "log (snd s2) = log (snd s1) @ xs" "list_all (watch_exchange con) xs"
    "log (snd s3) = log (snd s2) @ ys" "list_all (watch_exchange con) ys"
    using assms by (auto simp: watched_def)
  then show ?thesis unfolding watched_def by (intro exI[of _ "xs @ ys"]) simp
qed

lemma wait_round_log:
  assumes L: "logs_exchanges log net" and r: "wait_round net hc con p s = (x, s')"
  shows "watched log con s s'"
proof -
  obtain tr tc w where t: "tick_io net con [p] (fst s) (snd s) = (tr, tc, w)" by (metis prod_cases3)
  obtain xs ys where l: "log w = log (snd s) @ xs @ ys" "bearer_exchanges con ''/queue'' xs"
    "bearer_exchanges con ''/servers'' ys"
    using tick_io_log[OF L t] by blast
  obtain e w2 where w2: "rt_wait net (hc_pollInterval hc) w = (e, w2)" by fastforce
  have "snd s' = w \<or> snd s' = w2"
    using r t w2 by (auto simp: wait_round_def split: option.splits)
  moreover have "log w2 = log w" by (rule logs_wait[OF L w2])
  moreover have "list_all (watch_exchange con) (xs @ ys)"
    using l(2,3) by (auto simp: bearer_exchanges_def watch_exchange_def list_all_iff)
  ultimately show ?thesis using l(1) unfolding watched_def by (intro exI[of _ "xs @ ys"]) auto
qed

lemma register_alone_log:
  assumes L: "logs_exchanges log net"
    and r: "register_alone net hc con cid name timeout s = Some (res, s')"
  shows "watched log con s s'"
proof -
  obtain now w1 where n: "rt_now net (snd s) = (now, w1)" by fastforce
  have l1: "watched log con s (fst s, w1)" by (rule watched_same) (simp add: logs_now[OF L n])
  show ?thesis
  proof (cases "cid = []")
    case True
    then have "s' = (fst s, w1)" using r n by (simp add: register_alone_def register_new)
    then show ?thesis using l1 by simp
  next
    case False
    obtain p where "poll (wait_round net hc con p) (fst s, w1) = Some (res, s')"
      using r n False by (simp add: register_alone_def register_new await_def)
    then have "\<exists>s0. watched log con s s0 \<and> wait_round net hc con p s0 = (Inl res, s')"
      by (rule poll_last[where I = "watched log con s"]) (use l1 watched_trans wait_round_log[OF L] in blast)+
    then show ?thesis using wait_round_log[OF L] watched_trans by blast
  qed
qed

lemma wait_round_progress:
  assumes T: "net_keeps_time clk net" and r: "wait_round net hc con p s = (Inr (), s')"
  shows "clk (snd s) \<le> pc_deadline p \<and> clk (snd s) + hc_pollInterval hc \<le> clk (snd s')"
proof -
  obtain tr tc w where t: "tick_io net con [p] (fst s) (snd s) = (tr, tc, w)" by (metis prod_cases3)
  obtain lq tc1 w1 where q: "ListQueue net con (fst s) (snd s) = (lq, tc1, w1)" by (metis prod_cases3)
  obtain now w2 where n: "rt_now net w1 = (now, w2)" by fastforce
  have "tick_answer p tr = None" and "rt_wait net (hc_pollInterval hc) w = (None, snd s')"
    using r t by (auto simp: wait_round_def split: option.splits prod.splits)
  moreover have "clock_progress clk net" using T by (simp add: net_keeps_time_def)
  ultimately have "now \<le> pc_deadline p" and "clk w + hc_pollInterval hc \<le> clk (snd s')"
    using tick_answer_outcome[OF q n t] clock_progress_wait[of clk net]
    by (auto simp: command_outcome_def split: if_splits)
  then show ?thesis
    using ListQueue_time[OF T q] net_time(3)[OF T n] tick_io_time[OF T t] by linarith
qed

lemma register_alone_returns:
  assumes T: "net_keeps_time clk net" and d: "0 < hc_pollInterval hc"
  shows "\<exists>x. register_alone net hc con cid name timeout s = Some x"
proof -
  obtain now w1 where n: "rt_now net (snd s) = (now, w1)" by fastforce
  show ?thesis
  proof (cases "cid = []")
    case True
    then show ?thesis using n by (simp add: register_alone_def register_new)
  next
    case False
    define p where "p = \<lparr>pc_commandID = cid, pc_enrichName = name, pc_deadline = now + timeout, pc_uid = 0\<rparr>"
    let ?k = "nat (pc_deadline p - clk w1 + 1)"
    have fuel: "pc_deadline p - (clk \<circ> snd) (fst s, w1) < int ?k * hc_pollInterval hc"
    proof -
      have "pc_deadline p - clk w1 < int ?k" by simp
      also have "int ?k \<le> int ?k * hc_pollInterval hc" using d by (simp add: mult_le_cancel_left1)
      finally show ?thesis by simp
    qed
    have "\<exists>x. poll_n (Suc ?k) (wait_round net hc con p) (fst s, w1) = Some x"
      by (rule poll_n_returns[where clk = "clk \<circ> snd", OF d _ fuel])
        (use wait_round_progress[OF T] in \<open>fastforce simp: comp_def\<close>)
    then obtain x where "poll (wait_round net hc con p) (fst s, w1) = Some x" by (elim exE) (drule poll_n_poll, blast)
    then show ?thesis using n False by (cases x) (simp add: register_alone_def register_new await_def p_def)
  qed
qed

text \<open>The waits of the interface.\<close>

lemma WaitProvision_log:
  assumes "logs_exchanges log net" and "WaitProvision net hc con cid name timeout s = Some (x, s')"
  shows "watched log con s s'"
proof -
  obtain r where "register_alone net hc con cid name timeout s = Some (r, s')"
    using assms(2) by (auto simp: WaitProvision_def)
  then show ?thesis by (rule register_alone_log[OF assms(1)])
qed

lemma WaitTerminate_returns:
  assumes "net_keeps_time clk net" and "0 < hc_pollInterval hc"
  shows "WaitTerminate net hc con cid timeout s \<noteq> None"
  using register_alone_returns[OF assms, of con cid "[]" timeout s] by (auto simp: WaitTerminate_def)

section \<open>The waits refine the watcher\<close>


end
