(* ===== verification/WatcherProps.thy ===== *)
theory WatcherProps
  imports Poller Wire
begin

text \<open>What the command watcher promises: the properties of \<open>internal/kamatera/watcher.go\<close>.\<close>

section \<open>States and channels\<close>

text \<open>
  C17. There is one poller at most, and one as long as a command is pending; every channel is
  sent one result at most; an entry of the map is under its own, non-empty id, and its channel
  is still open.
\<close>

theorem one_poller_one_result:
  assumes "reachable watcher_init (watcher_step net con) s"
  shows "length (ws_runners s) = (if ws_running s then 1 else 0)
    \<and> (ws_pending s = [] \<or> ws_running s)
    \<and> distinct (map fst (ws_sent s)) \<and> distinct (map fst (ws_pending s))
    \<and> list_all (\<lambda>(cid, p). pc_commandID p = cid \<and> cid \<noteq> [] \<and> map_of (ws_sent s) (pc_uid p) = None) (ws_pending s)"
proof -
  have I: "watcher_inv s" using assms by (rule ws.reachable_inv)
  note D = watcher_invD[OF I]
  have "pc_commandID p = cid \<and> cid \<noteq> [] \<and> map_of (ws_sent s) (pc_uid p) = None"
    if "(cid, p) \<in> set (ws_pending s)" for cid p
  proof -
    have "map_of (ws_pending s) cid = Some p" using that D(1) by simp
    then show ?thesis using D(2) by (auto simp: entry_ok_def)
  qed
  then show ?thesis using D(1,3,5,6) by (auto simp: list_all_iff)
qed

text \<open>One caller waits, over a scripted network, and the poller is started.\<close>

definition one_wait :: "wire \<Rightarrow> string \<Rightarrow> string \<Rightarrow> int \<Rightarrow> wire watcher_state" where
  "one_wait w cid name timeout = waitProvision cid name (wr_clock w + timeout) (newCmdWatcher wire_token w)"

definition one_cmd :: "wire \<Rightarrow> string \<Rightarrow> string \<Rightarrow> int \<Rightarrow> pending_cmd" where
  "one_cmd w cid name timeout =
     \<lparr>pc_commandID = cid, pc_enrichName = name, pc_deadline = wr_clock w + timeout, pc_uid = 0\<rparr>"

lemma one_wait_state:
  "cid \<noteq> [] \<Longrightarrow> one_wait w cid name d = \<lparr>ws_pending = [(cid, one_cmd w cid name d)], ws_running = True,
     ws_runners = [RTick], ws_waiters = (\<lambda>u. NotStarted)(0 := Waiting (one_cmd w cid name d)),
     ws_next = 1, ws_sent = [], ws_tc = wire_token, ws_world = w\<rparr>"
  by (simp add: one_wait_def one_cmd_def waitProvision_def register_def newCmdWatcher_def Let_def)

lemma one_wait_reachable: "reachable watcher_init (watcher_step wire_net con) (one_wait w cid name d)"
proof -
  let ?s = "newCmdWatcher wire_token w"
  have "watcher_init ?s" by (simp add: watcher_init_def newCmdWatcher_def)
  moreover have "watcher_step wire_net con ?s (waitProvision cid name (wr_clock w + d) (?s\<lparr>ws_world := w\<rparr>))"
    by (rule ws_provision) (simp add: newCmdWatcher_def wire_defs)
  moreover have "?s\<lparr>ws_world := w\<rparr> = ?s" by (simp add: newCmdWatcher_def)
  ultimately show ?thesis unfolding one_wait_def by (metis reach_init reach_step)
qed

theorem one_poller_one_result_witness:
  "length (ws_runners (one_wait (answers []) ''7'' [] 5)) = 1
   \<and> map fst (ws_pending (one_wait (answers []) ''7'' [] 5)) = [''7'']
   \<and> distinct (map fst (ws_pending (one_wait (answers []) ''7'' [] 5)))"
  using one_poller_one_result[OF one_wait_reachable[of _ "answers []" "''7''" "[]" 5]] by (simp add: one_wait_state)

text \<open>
  C16. No wait is lost but through another's end: a caller that waits has a result in its
  channel, or its entry is in the map and a poller runs, or another wait for the same command
  was cancelled.
\<close>

theorem no_wait_is_lost:
  assumes "reachable watcher_init (watcher_step net con) s"
    and "ws_waiters s u = Waiting p"
  shows "map_of (ws_sent s) u \<noteq> None
    \<or> map_of (ws_pending s) (pc_commandID p) = Some p \<and> pc_uid p = u \<and> length (ws_runners s) = 1
    \<or> (\<exists>v q. v \<noteq> u \<and> ws_waiters s v = Cancelled q \<and> pc_commandID q = pc_commandID p)"
proof -
  have I: "watcher_inv s" using assms(1) by (rule ws.reachable_inv)
  note D = watcher_invD[OF I]
  have "map_of (ws_pending s) (pc_commandID p) = Some p \<Longrightarrow> length (ws_runners s) = 1"
    using D(5,6) by (cases "ws_pending s") auto
  then show ?thesis using D(9)[OF assms(2)] D(8)[of u p] assms(2) unfolding waiter_ok_def by blast
qed

theorem no_wait_is_lost_witness:
  "ws_waiters (one_wait (answers []) ''7'' [] 5) 0 = Waiting (one_cmd (answers []) ''7'' [] 5)
   \<and> length (ws_runners (one_wait (answers []) ''7'' [] 5)) = 1"
  using no_wait_is_lost[OF one_wait_reachable[of _ "answers []" "''7''" "[]" 5], of 0 "one_cmd (answers []) ''7'' [] 5"]
  by (simp add: one_wait_state)

section \<open>Ticks\<close>

text \<open>
  C18. The answer of a tick to each command of its snapshot that is still pending when the tick
  ends, whatever happened in between: the command gets the result that \<open>command_outcome\<close>
  reads off the two listings and the clock, and its entry is removed; or, where there is
  none, the entry stays and nothing is sent.
\<close>

theorem tick_answers:
  assumes "reachable watcher_init (watcher_step net con) s"
    and "distinct (map pc_commandID snapshot)" and "p \<in> set snapshot"
    and "map_of (ws_pending s) (pc_commandID p) = Some p"
    and "ListQueue net con tc w = (lq, tc1, w1)" and "rt_now net w1 = (now, w2)"
    and "tick_io net con snapshot tc w = (r, tc', w')"
  shows "case command_outcome lq now (fst (ListServers net con tc1 w2)) p of
      None \<Rightarrow> map_of (ws_pending (tick_end snapshot r s)) (pc_commandID p) = Some p
        \<and> map_of (ws_sent (tick_end snapshot r s)) (pc_uid p) = None
    | Some x \<Rightarrow> map_of (ws_sent (tick_end snapshot r s)) (pc_uid p) = Some x
        \<and> map_of (ws_pending (tick_end snapshot r s)) (pc_commandID p) = None"
proof -
  have I: "watcher_inv s" using assms(1) by (rule ws.reachable_inv)
  have t: "tick_end snapshot r s =
      deliver (completions (command_outcome lq now (fst (ListServers net con tc1 w2))) snapshot) s"
    by (rule tick_io_end[OF assms(5-7)])
  have "watcher_inv (tick_end snapshot r s)" unfolding t by (rule deliver_inv[OF I])
  then have "map_of (ws_pending (tick_end snapshot r s)) (pc_commandID p) = Some p \<Longrightarrow>
      map_of (ws_sent (tick_end snapshot r s)) (pc_uid p) = None"
    using watcher_invD(2) by (auto simp: entry_ok_def)
  then show ?thesis
    using deliver_completions[OF I assms(2-4), of "command_outcome lq now (fst (ListServers net con tc1 w2))"]
    unfolding t by (auto split: option.splits)
qed

text \<open>The queue shows the command as complete, and the servers the one with its name.\<close>

definition done_wire :: wire where
  "done_wire = answers [answer 200 ''[{\"id\":7,\"status\":\"complete\",\"server\":\"n\"}]'',
     answer 200 ''[{\"id\":\"x\",\"name\":\"n\"}]'']"

definition done_server :: server where
  "done_server = zero_server\<lparr>srv_ID := ''x'', srv_Name := ''n''\<rparr>"

lemma done_queue:
  "ListQueue wire_net wire_console wire_token done_wire =
     (Inr [zero_queue_status\<lparr>qs_ID := ''7'', qs_Status := StatusComplete, qs_Server := ''n''\<rparr>], wire_token,
      done_wire\<lparr>wr_answers := tl (wr_answers done_wire),
        wr_log := [(get_request wire_console ''t'' ''/queue'', hd (wr_answers done_wire))]\<rparr>)"
  by code_simp

lemma done_servers:
  "fst (ListServers wire_net wire_console wire_token
     (done_wire\<lparr>wr_answers := tl (wr_answers done_wire), wr_log := l\<rparr>)) = Inr [done_server]"
  by code_simp

theorem tick_answers_witness:
  "\<exists>r tc w. tick_io wire_net wire_console [one_cmd done_wire ''7'' ''n'' 600] wire_token done_wire = (r, tc, w)
     \<and> map_of (ws_sent (tick_end [one_cmd done_wire ''7'' ''n'' 600] r (one_wait done_wire ''7'' ''n'' 600))) 0
         = Some \<lparr>res_server = done_server, res_err = None\<rparr>"
proof -
  let ?p = "one_cmd done_wire ''7'' ''n'' 600"
  obtain r tc w where r: "tick_io wire_net wire_console [?p] wire_token done_wire = (r, tc, w)" by (metis prod_cases3)
  let ?w1 = "done_wire\<lparr>wr_answers := tl (wr_answers done_wire),
    wr_log := [(get_request wire_console ''t'' ''/queue'', hd (wr_answers done_wire))]\<rparr>"
  have now: "rt_now wire_net ?w1 = (0, ?w1)" by (simp add: wire_defs done_wire_def)
  have c: "pc_commandID ?p = ''7''" "pc_enrichName ?p = ''n''" "pc_deadline ?p = 600 + wr_clock done_wire" "pc_uid ?p = 0"
    by (simp_all add: one_cmd_def)
  have k: "wr_clock done_wire = 0" by (simp add: done_wire_def answers_def)
  have o: "command_outcome (Inr [zero_queue_status\<lparr>qs_ID := ''7'', qs_Status := StatusComplete, qs_Server := ''n''\<rparr>]) 0
      (Inr [done_server]) ?p = Some \<lparr>res_server = done_server, res_err = None\<rparr>"
    by (simp add: command_outcome_def c k IsFailure_def status_defs done_server_def)
  show ?thesis
    using tick_answers[OF one_wait_reachable _ _ _ done_queue now r, of ?p done_wire "''7''" "''n''" 600] r
    by (simp add: one_wait_state c done_servers o)
qed

text \<open>
  A tick makes a bounded number of calls, however many callers wait: it reads the queue,
  then the servers and only if a command of the snapshot asks for one; each listing takes two
  reads and two authentications at most.
\<close>

lemma tick_calls_bounded:
  assumes "logs_exchanges log net" and "tick_io net con snapshot tc w = (r, tc', w')"
  shows "\<exists>xs ys. log w' = log w @ xs @ ys \<and> length (xs @ ys) \<le> 8
    \<and> list_all (console_exchange con ''/queue'') xs \<and> length (filter is_get xs) \<le> 2
    \<and> list_all (console_exchange con ''/servers'') ys \<and> length (filter is_get ys) \<le> 2
    \<and> (ys = [] \<or> (\<exists>p \<in> set snapshot. pc_enrichName p \<noteq> []))"
proof -
  obtain xs ys where x: "log w' = log w @ xs @ ys" "bearer_exchanges con ''/queue'' xs"
    "bearer_exchanges con ''/servers'' ys" "ys = [] \<or> (\<exists>p \<in> set snapshot. pc_enrichName p \<noteq> [])"
    using tick_io_log[OF assms] by blast
  have "length (xs @ ys) \<le> 8" using x(2,3)[THEN bearer_exchanges_length] by simp
  then show ?thesis using x unfolding bearer_exchanges_def by blast
qed

section \<open>Progress\<close>

text \<open>
  C19. Nobody waits for long past a deadline: once the true time is past the deadline of a
  pending command, its caller has a result after seven steps of the poller, and until then the
  poller can take a step (where the clock is right and calls do not turn time back).
\<close>

theorem late_wait_is_answered:
  assumes "reachable watcher_init (watcher_step net con) s" and "net_keeps_time clk net"
    and "map_of (ws_pending s) (pc_commandID p) = Some p" and "pc_deadline p < clk (ws_world s)"
    and "(poller_step net con ^^ n) s t"
  shows "map_of (ws_sent t) (pc_uid p) \<noteq> None \<or> n < 7 \<and> (\<exists>t'. poller_step net con t t')"
proof -
  have I: "watcher_inv s" using assms(1) by (rule ws.reachable_inv)
  have l: "late clk p s" using assms(3,4) by (simp add: late_def)
  from poller_run[OF assms(2) I l assms(5)]
  have t: "watcher_inv t" "map_of (ws_sent t) (pc_uid p) \<noteq> None \<or> late clk p t \<and> rank p t + n \<le> rank p s" by auto
  moreover have "n < 7" if "rank p t + n \<le> rank p s"
    using that stage_bounds[of p "hd (ws_runners t)"] stage_bounds[of p "hd (ws_runners s)"]
    unfolding rank_def by linarith
  moreover have "\<exists>t'. poller_step net con t t'" if "late clk p t"
    using that by (intro poller_moves[OF t(1)]) (auto simp: late_def)
  ultimately show ?thesis by blast
qed

theorem late_wait_is_answered_witness:
  "\<exists>t. poller_step wire_net wire_console (one_wait (answers []) ''7'' [] (- 1)) t"
proof -
  let ?s = "one_wait (answers []) ''7'' [] (- 1)"
  let ?p = "one_cmd (answers []) ''7'' [] (- 1)"
  have "map_of (ws_pending ?s) (pc_commandID ?p) = Some ?p" "pc_deadline ?p < wr_clock (ws_world ?s)"
    "map_of (ws_sent ?s) (pc_uid ?p) = None"
    by (simp_all add: one_wait_state one_cmd_def)
  moreover have "(poller_step wire_net wire_console ^^ 0) ?s ?s" by simp
  ultimately show ?thesis using late_wait_is_answered[OF one_wait_reachable wire_time] by blast
qed

section \<open>A wait that another one ends\<close>

text \<open>The run: the states of a first caller with \<open>p\<close> and of a second one with \<open>q\<close>.\<close>

definition race_state ::
  "(string \<times> pending_cmd) list \<Rightarrow> runner \<Rightarrow> waiter \<Rightarrow> waiter \<Rightarrow> nat \<Rightarrow> (nat \<times> wait_result) list \<Rightarrow> token_cache
     \<Rightarrow> wire \<Rightarrow> wire watcher_state" where
  "race_state pending r one two n sent tc w =
     \<lparr>ws_pending = pending, ws_running = True, ws_runners = [r],
      ws_waiters = (\<lambda>u. NotStarted)(0 := one, 1 := two), ws_next = n, ws_sent = sent, ws_tc = tc, ws_world = w\<rparr>"

abbreviation race_reachable :: "wire watcher_state \<Rightarrow> bool" where
  "race_reachable \<equiv> reachable watcher_init (watcher_step wire_net wire_console)"

definition late_wire :: wire where
  "late_wire = (answers [])\<lparr>wr_clock := 2\<rparr>"

definition first_cmd :: pending_cmd where
  "first_cmd = one_cmd (answers []) ''7'' [] 1"

definition second_cmd :: "int \<Rightarrow> pending_cmd" where
  "second_cmd now = first_cmd\<lparr>pc_deadline := now + 600, pc_uid := 1\<rparr>"

lemmas race_defs = race_state_def set_runner_def first_cmd_def second_cmd_def one_cmd_def answers_def

lemma race_start: "race_reachable (race_state [(''7'', first_cmd)] RTick (Waiting first_cmd) NotStarted 1 [] wire_token (answers []))"
proof -
  have "one_wait (answers []) ''7'' [] 1 =
      race_state [(''7'', first_cmd)] RTick (Waiting first_cmd) NotStarted 1 [] wire_token (answers [])"
    by (simp add: one_wait_state race_state_def first_cmd_def fun_eq_iff)
  then show ?thesis using one_wait_reachable by metis
qed

lemma race_snapped: "race_reachable (race_state [(''7'', first_cmd)] (RSnapped [first_cmd]) (Cancelling first_cmd) NotStarted 1 [] wire_token late_wire)"
proof -
  let ?s = "\<lambda>r f w. race_state [(''7'', first_cmd)] r f NotStarted 1 [] wire_token w"
  have "watcher_step wire_net wire_console (?s RTick (Waiting first_cmd) (answers [])) (?s RTick (Cancelling first_cmd) (answers []))"
    using ws_ctx_done[of "?s RTick (Waiting first_cmd) (answers [])" 0 first_cmd wire_net wire_console]
    by (simp add: race_state_def fun_upd_twist)
  moreover have "watcher_step wire_net wire_console (?s RTick (Cancelling first_cmd) (answers []))
      (?s (RSnapped [first_cmd]) (Cancelling first_cmd) (answers []))"
    using ws_snapshot[of 0 "?s RTick (Cancelling first_cmd) (answers [])" "[first_cmd]" wire_net wire_console]
    by (simp add: race_state_def set_runner_def)
  moreover have "watcher_step wire_net wire_console (?s (RSnapped [first_cmd]) (Cancelling first_cmd) (answers []))
      (?s (RSnapped [first_cmd]) (Cancelling first_cmd) late_wire)"
    using ws_world[of wire_net wire_console "?s (RSnapped [first_cmd]) (Cancelling first_cmd) (answers [])" late_wire]
    by (simp add: race_state_def)
  ultimately show ?thesis using race_start by (blast intro: reach_step)
qed

lemma race_tick:
  "case tick_io wire_net wire_console [p] wire_token late_wire of (r, tc, w) \<Rightarrow> r = QueueFailed 2"
  by code_simp

lemma race_expired:
  obtains tc w x where "race_reachable (race_state [] RCheck (Cancelling first_cmd) NotStarted 1 [(0, x)] tc w)"
proof -
  obtain tc w where t: "tick_io wire_net wire_console [first_cmd] wire_token late_wire = (QueueFailed 2, tc, w)"
    using race_tick[of first_cmd] by (auto split: prod.splits)
  let ?s = "\<lambda>r tc w. race_state [(''7'', first_cmd)] r (Cancelling first_cmd) NotStarted 1 [] tc w"
  have "watcher_step wire_net wire_console (?s (RSnapped [first_cmd]) wire_token late_wire) (?s (RExpire 2 [first_cmd]) tc w)"
    using ws_queue_failed[of 0 "?s (RSnapped [first_cmd]) wire_token late_wire" "[first_cmd]" wire_net wire_console 2 tc w] t
    by (simp add: race_state_def set_runner_def)
  moreover have "watcher_step wire_net wire_console (?s (RExpire 2 [first_cmd]) tc w)
      (race_state [] RCheck (Cancelling first_cmd) NotStarted 1 [(0, failed (timeout_error first_cmd))] tc w)"
    using ws_expire[of 0 "?s (RExpire 2 [first_cmd]) tc w" 2 "[first_cmd]" wire_net wire_console]
    by (simp add: race_defs resolve_def)
  ultimately show ?thesis using race_snapped that by (blast intro: reach_step)
qed

text \<open>
  C36. \<open>cancel\<close> deletes by id, whoever's entry it is. The context of a first caller ends; before it
  calls \<open>cancel\<close>, its command times out and a second caller waits for the same command: the
  entry of the second is deleted. It waits, and whatever happens is never sent a result.
\<close>

theorem cancel_drops_another_wait:
  "\<exists>s p q. reachable watcher_init (watcher_step wire_net wire_console) s
     \<and> ws_waiters s 0 = Cancelled p \<and> ws_waiters s 1 = Waiting q \<and> pc_commandID p = pc_commandID q
     \<and> {t. (watcher_step wire_net wire_console)\<^sup>*\<^sup>* s t} \<subseteq> {t. map_of (ws_sent t) 1 = None}"
proof -
  obtain tc w x where r: "race_reachable (race_state [] RCheck (Cancelling first_cmd) NotStarted 1 [(0, x)] tc w)"
    by (rule race_expired)
  let ?q = "second_cmd (wr_clock w)"
  let ?s = "race_state [] RCheck (Cancelled first_cmd) (Waiting ?q) 2 [(0, x)] tc w"
  have "watcher_step wire_net wire_console (race_state [] RCheck (Cancelling first_cmd) NotStarted 1 [(0, x)] tc w)
      (race_state [(''7'', ?q)] RCheck (Cancelling first_cmd) (Waiting ?q) 2 [(0, x)] tc w)"
    using ws_terminate[of wire_net "race_state [] RCheck (Cancelling first_cmd) NotStarted 1 [(0, x)] tc w"
        "wr_clock w" w wire_console "''7''" 600]
    by (simp add: race_defs waitTerminate_def register_def wire_defs Let_def numeral_2_eq_2)
  moreover have "watcher_step wire_net wire_console (race_state [(''7'', ?q)] RCheck (Cancelling first_cmd) (Waiting ?q) 2 [(0, x)] tc w) ?s"
    using ws_cancel[of "race_state [(''7'', ?q)] RCheck (Cancelling first_cmd) (Waiting ?q) 2 [(0, x)] tc w" 0 first_cmd wire_net wire_console]
    by (simp add: race_defs cancel_def fun_upd_twist)
  ultimately have "race_reachable ?s" using r by (blast intro: reach_step)
  moreover have "abandoned 1 ?s" by (simp add: abandoned_def race_state_def)
  then have "{t. (watcher_step wire_net wire_console)\<^sup>*\<^sup>* ?s t} \<subseteq> {t. map_of (ws_sent t) 1 = None}"
    using steps_abandoned by blast
  moreover have "ws_waiters ?s 0 = Cancelled first_cmd" "ws_waiters ?s 1 = Waiting ?q" "pc_commandID first_cmd = pc_commandID ?q"
    by (simp_all add: race_state_def second_cmd_def)
  ultimately show ?thesis by blast
qed

end
