(* ===== verification/JsonFuel.thy ===== *)
theory JsonFuel
  imports Json
begin

text \<open>
  The fuel of the parser of \<open>Json\<close> is enough for every text: what is left of a text after a
  value is shorter than the text, so more fuel than \<open>parse_json\<close> gives never changes what is
  parsed, and a text is refused because of the grammar alone.
\<close>

section \<open>What is left is shorter\<close>

named_theorems json_shorter \<open>the rest after a token is shorter\<close>

lemma skip_ws_le: "length (skip_ws s) \<le> length s"
  by (simp add: skip_ws_def length_dropWhile_le)

lemma expect_shorter [json_shorter]: "expect c s = Some r \<Longrightarrow> length r < length s"
  using skip_ws_le[of s] by (auto simp: expect_def split: list.splits if_splits)

lemma prepend_eq_Some: "prepend xs x = Some (t, r) \<longleftrightarrow> (\<exists>u. x = Some (u, r) \<and> t = xs @ u)"
  by (cases x) (auto simp: prepend_def)

lemma parse_string_step:
  assumes "parse_string s = Some (t, r)"
  shows "s \<noteq> [] \<and> (r = tl s \<or> (\<exists>k u. 0 < k \<and> parse_string (drop k s) = Some (u, r)))"
proof (cases s)
  case (Cons c q)
  have E: "\<exists>k u. 0 < k \<and> parse_string (drop k s) = Some (u, r)"
    if "prepend xs (parse_string z) = Some (t, r)" "z = drop k s" "0 < k" for xs z k
    using that by (auto simp: prepend_eq_Some)
  have "r = q \<or> (\<exists>k u. 0 < k \<and> parse_string (drop k s) = Some (u, r))"
  proof (rule disjCI)
    assume none: "\<not> (\<exists>k u. 0 < k \<and> parse_string (drop k s) = Some (u, r))"
    then have no: "prepend xs (parse_string (drop k s)) \<noteq> Some (t, r)" if "0 < k" for xs k
      using E that by blast
    have "prepend xs (parse_string q) \<noteq> Some (t, r)" for xs using no[of 1] Cons by simp
    moreover have "prepend xs (parse_string (drop (utf8_len s) s)) \<noteq> Some (t, r)" if "utf8_len s \<noteq> 0" for xs
      using no that by blast
    moreover have "prepend xs (parse_string (drop k (tl q))) \<noteq> Some (t, r)" for xs k
      using no[of "k + 2"] Cons by (cases q) simp_all
    moreover have "prepend xs (parse_string (tl q)) \<noteq> Some (t, r)" for xs
      using no[of 2] Cons by (cases q) (simp_all add: numeral_2_eq_2)
    ultimately show "r = q"
      using assms[unfolded Cons parse_string.simps[of "c # q"]] unfolding Cons
      by (simp split: if_splits list.splits option.splits)
  qed
  then show ?thesis using Cons by simp
qed (use assms in \<open>simp add: parse_string.simps[of "[]"]\<close>)

lemma parse_string_shorter [json_shorter]: "parse_string s = Some (t, r) \<Longrightarrow> length r < length s"
proof (induction s arbitrary: t rule: length_induct)
  case (1 s)
  from parse_string_step[OF "1.prems"] have ne: "s \<noteq> []"
    and c: "r = tl s \<or> (\<exists>k u. 0 < k \<and> parse_string (drop k s) = Some (u, r))" by auto
  from c show ?case
  proof
    assume "\<exists>k u. 0 < k \<and> parse_string (drop k s) = Some (u, r)"
    then obtain k u where k: "0 < k" "parse_string (drop k s) = Some (u, r)" by blast
    then have "length (drop k s) < length s" using ne by (cases s) auto
    with "1.IH" k(2) show ?thesis by fastforce
  qed (use ne in \<open>cases s; simp\<close>)
qed

lemma literal_shorter [json_shorter]:
  "literal word v s = Some (x, r) \<Longrightarrow> word \<noteq> [] \<Longrightarrow> length r < length s"
  by (auto simp: literal_def prefix_def split: if_splits)

lemma parse_number_shorter [json_shorter]: "parse_number s = Some (v, r) \<Longrightarrow> length r < length s"
proof -
  assume a: "parse_number s = Some (v, r)"
  then have "isValidNumber (takeWhile number_char s)" "r = dropWhile number_char s"
    by (auto simp: parse_number_def Let_def split: if_splits)
  moreover have "\<not> isValidNumber []" by (simp add: isValidNumber_def number_int_def)
  ultimately have "takeWhile number_char s \<noteq> []" by metis
  then show ?thesis
    using takeWhile_dropWhile_id[of number_char s] \<open>r = _\<close> by (metis add_less_cancel_right add_0 length_append length_greater_0_conv)
qed

lemma parse_shorter_all:
  "(\<forall>d s v r. parse_value f d s = Some (v, r) \<longrightarrow> length r < length s)
   \<and> (\<forall>d s vs r. parse_elems f d s = Some (vs, r) \<longrightarrow> length r < length s)
   \<and> (\<forall>d s ms r. parse_members f d s = Some (ms, r) \<longrightarrow> length r < length s)"
proof (induction f)
  case (Suc f)
  have V: "length r < length s" if "parse_value f d s = Some (v, r)" for d s v r
    using Suc.IH that by blast
  have E: "length r < length s" if "parse_elems f d s = Some (vs, r)" for d s vs r
    using Suc.IH that by blast
  have M: "length r < length s" if "parse_members f d s = Some (ms, r)" for d s ms r
    using Suc.IH that by blast
  have "length r < length s" if v: "parse_value (Suc f) d s = Some (v, r)" for d s v r
  proof (cases "skip_ws s")
    case (Cons c q)
    have "length r < length (c # q)"
      using v Cons literal_shorter[of _ _ "c # q" v r] parse_number_shorter[of "c # q" v r]
        less_SucI[OF expect_shorter[of _ q r]]
      by (auto dest!: M E parse_string_shorter split: if_splits option.splits)
    then show ?thesis using skip_ws_le[of s] Cons by simp
  qed (use v in simp)
  moreover have "length r < length s" if "parse_elems (Suc f) d s = Some (vs, r)" for d s vs r
    using that by (auto dest!: V E expect_shorter split: option.splits)
  moreover have "length r < length s" if "parse_members (Suc f) d s = Some (ms, r)" for d s ms r
    using that by (auto dest!: V M expect_shorter parse_string_shorter split: option.splits)
  ultimately show ?case by blast
qed simp

lemma parse_value_shorter: "parse_value f d s = Some (v, r) \<Longrightarrow> length r < length s"
  using parse_shorter_all by blast

section \<open>More fuel changes nothing\<close>

text \<open>A value takes two units for each character of the text and one more, the contents of a bracket
  another one.\<close>

lemma fuel_suffices_all:
  "(\<forall>g d s. 2 * length s < f \<longrightarrow> 2 * length s < g \<longrightarrow> parse_value f d s = parse_value g d s)
   \<and> (\<forall>g d s. Suc (2 * length s) < f \<longrightarrow> Suc (2 * length s) < g \<longrightarrow> parse_elems f d s = parse_elems g d s)
   \<and> (\<forall>g d s. Suc (2 * length s) < f \<longrightarrow> Suc (2 * length s) < g \<longrightarrow> parse_members f d s = parse_members g d s)"
proof (induction f)
  case (Suc f)
  have V: "parse_value f d s = parse_value g d s" if "2 * length s < f" "2 * length s < g" for g d s
    using Suc.IH that by blast
  have E: "parse_elems f d s = parse_elems g d s" if "Suc (2 * length s) < f" "Suc (2 * length s) < g" for g d s
    using Suc.IH that by blast
  have M: "parse_members f d s = parse_members g d s" if "Suc (2 * length s) < f" "Suc (2 * length s) < g" for g d s
    using Suc.IH that by blast
  have "parse_value (Suc f) d s = parse_value g d s" if l: "2 * length s < Suc f" "2 * length s < g" for g d s
  proof -
    obtain h where g: "g = Suc h" using l(2) by (cases g) auto
    show ?thesis
    proof (cases "skip_ws s")
      case (Cons c q)
      have "Suc (2 * length q) < f" "Suc (2 * length q) < h"
        using skip_ws_le[of s] l g Cons by simp_all
      then have "parse_elems f e q = parse_elems h e q" "parse_members f e q = parse_members h e q" for e
        using E M by blast+
      then show ?thesis using Cons by (simp add: g split: option.split)
    qed (simp add: g)
  qed
  moreover have "parse_elems (Suc f) d s = parse_elems g d s"
    if l: "Suc (2 * length s) < Suc f" "Suc (2 * length s) < g" for g d s
  proof -
    obtain h where g: "g = Suc h" using l(2) by (cases g) auto
    have v: "parse_value f d s = parse_value h d s" by (rule V) (use l g in simp_all)
    have e: "parse_elems f d r1 = parse_elems h d r1"
      if "parse_value h d s = Some (v, r)" "expect c r = Some r1" for v r c r1
      using parse_value_shorter[OF that(1)] expect_shorter[OF that(2)] l g by (intro E) simp_all
    show ?thesis
    proof (cases "parse_value h d s")
      case (Some vr)
      then show ?thesis
        using e[of "fst vr" "snd vr" "CHR '',''"]
        by (cases vr; cases "expect (CHR '']'') (snd vr)"; cases "expect (CHR '','') (snd vr)") (simp_all add: g v)
    qed (simp add: g v)
  qed
  moreover have "parse_members (Suc f) d s = parse_members g d s"
    if l: "Suc (2 * length s) < Suc f" "Suc (2 * length s) < g" for g d s
  proof -
    obtain h where g: "g = Suc h" using l(2) by (cases g) auto
    have v: "parse_value f d r2 = parse_value h d r2"
      if "expect a s = Some r0" "parse_string r0 = Some (k, r1)" "expect b r1 = Some r2" for a r0 k r1 b r2
      using expect_shorter[OF that(1)] parse_string_shorter[OF that(2)] expect_shorter[OF that(3)] l g
      by (intro V) simp_all
    have m: "parse_members f d r4 = parse_members h d r4"
      if "expect a s = Some r0" "parse_string r0 = Some (k, r1)" "expect b r1 = Some r2"
        "parse_value h d r2 = Some (x, r3)" "expect c r3 = Some r4" for a r0 k r1 b r2 x r3 c r4
      using expect_shorter[OF that(1)] parse_string_shorter[OF that(2)] expect_shorter[OF that(3)]
        parse_value_shorter[OF that(4)] expect_shorter[OF that(5)] l g
      by (intro M) simp_all
    show ?thesis
    proof (cases "expect (CHR 0x22) s")
      case r0: (Some r0)
      show ?thesis
      proof (cases "parse_string r0")
        case (Some kr)
        then obtain k0 r1 where k: "parse_string r0 = Some (k0, r1)" by (cases kr) simp
        show ?thesis
        proof (cases "expect (CHR '':'') r1")
          case r2: (Some r2)
          have vv: "parse_value f d r2 = parse_value h d r2" by (rule v[OF r0 k r2])
          show ?thesis
          proof (cases "parse_value h d r2")
            case (Some xr)
            then obtain y r3 where x: "parse_value h d r2 = Some (y, r3)" by (cases xr) simp
            show ?thesis
              using m[OF r0 k r2 x, of "CHR '',''"]
              by (cases "expect (CHR ''}'') r3"; cases "expect (CHR '','') r3")
                (simp_all add: g r0 k r2 vv x)
          qed (simp add: g r0 k r2 vv)
        qed (simp add: g r0 k)
      qed (simp add: g r0)
    qed (simp add: g)
  qed
  ultimately show ?case by blast
qed simp

lemma parse_json_fuel:
  assumes "2 * length s < f"
  shows "parse_json s =
    (case parse_value f 10000 s of None \<Rightarrow> None | Some (v, r) \<Rightarrow> if skip_ws r = [] then Some v else None)"
proof -
  have "parse_value (Suc (2 * length s)) 10000 s = parse_value f 10000 s"
    using fuel_suffices_all[of "Suc (2 * length s)"] assms by blast
  then show ?thesis by (simp add: parse_json_def)
qed

end
