(* ===== verification/Listings.thy ===== *)
theory Listings
  imports WatcherProps JsonFuel
begin

text \<open>
  What the listings of the console API can contain, whatever the API answers: the numbers of a
  parsed text are valid literals, so the ids of a decoded queue are numbers, and the watcher
  can never find a command whose id is not one.
\<close>

section \<open>The numbers of a parsed text\<close>

fun numbers_ok :: "json \<Rightarrow> bool" where
  "numbers_ok (JNum lit) = isValidNumber lit"
| "numbers_ok (JArr vs) = list_all numbers_ok vs"
| "numbers_ok (JObj ms) = list_all (\<lambda>(k, v). numbers_ok v) ms"
| "numbers_ok v = True"

lemma literal_numbers: "literal word v s = Some (x, r) \<Longrightarrow> numbers_ok v \<Longrightarrow> numbers_ok x"
  by (auto simp: literal_def split: if_splits)

lemma parse_number_numbers: "parse_number s = Some (x, r) \<Longrightarrow> numbers_ok x"
  by (auto simp: parse_number_def Let_def split: if_splits)

lemma parse_numbers_all:
  "(\<forall>d s v r. parse_value f d s = Some (v, r) \<longrightarrow> numbers_ok v)
   \<and> (\<forall>d s vs r. parse_elems f d s = Some (vs, r) \<longrightarrow> list_all numbers_ok vs)
   \<and> (\<forall>d s ms r. parse_members f d s = Some (ms, r) \<longrightarrow> list_all (\<lambda>(k, v). numbers_ok v) ms)"
proof (induction f)
  case (Suc f)
  have V: "numbers_ok v" if "parse_value f d s = Some (v, r)" for d s v r
    using Suc.IH that by blast
  have E: "list_all numbers_ok vs" if "parse_elems f d s = Some (vs, r)" for d s vs r
    using Suc.IH that by blast
  have M: "list_all (\<lambda>(k, v). numbers_ok v) ms" if "parse_members f d s = Some (ms, r)" for d s ms r
    using Suc.IH that by blast
  have "numbers_ok v" if v: "parse_value (Suc f) d s = Some (v, r)" for d s v r
  proof (cases "skip_ws s")
    case (Cons c q)
    show ?thesis
      using v Cons literal_numbers[of _ _ "c # q" v r] parse_number_numbers[of "c # q" v r]
      by (auto dest!: M E split: if_splits option.splits)
  qed (use v in simp)
  moreover have "list_all numbers_ok vs" if "parse_elems (Suc f) d s = Some (vs, r)" for d s vs r
    using that by (auto dest!: V E split: option.splits)
  moreover have "list_all (\<lambda>(k, v). numbers_ok v) ms" if "parse_members (Suc f) d s = Some (ms, r)" for d s ms r
    using that by (auto dest!: V M split: option.splits)
  ultimately show ?case by blast
qed simp

lemma parse_json_numbers:
  assumes "parse_json s = Some v"
  shows "numbers_ok v"
proof -
  obtain r where "parse_value (Suc (2 * length s)) 10000 s = Some (v, r)"
    using assms by (auto simp: parse_json_def simp del: parse_value.simps split: option.splits if_splits)
  then show ?thesis using parse_numbers_all by blast
qed

section \<open>The ids of a queue\<close>

lemma decode_members_keeps:
  "decode_members field ms r = Some r' \<Longrightarrow> P r \<Longrightarrow>
     (\<And>k v r r'. v \<in> snd ` set ms \<Longrightarrow> field (fold_case k) v r = Some r' \<Longrightarrow> P r \<Longrightarrow> P r') \<Longrightarrow> P r'"
proof (induction field ms r rule: decode_members.induct)
  case (2 field k v ms r)
  then obtain r1 where r1: "field (fold_case k) v r = Some r1" "decode_members field ms r1 = Some r'"
    by (auto split: option.splits)
  show ?case
  proof (rule "2.IH"[OF r1])
    show "P r1" using "2.prems"(3)[OF _ r1(1) "2.prems"(2)] by simp
  next
    fix k' v' q q'
    assume "v' \<in> snd ` set ms" "field (fold_case k') v' q = Some q'" "P q"
    then show "P q'" using "2.prems"(3)[of v' k' q q'] by auto
  qed
qed simp

definition id_ok :: "string \<Rightarrow> bool" where
  "id_ok i = (i = [] \<or> isValidNumber i)"

lemma id_ok_zero: "id_ok []"
  by (simp add: id_ok_def)

lemma into_number_ok: "into_number v old = Some x \<Longrightarrow> numbers_ok v \<Longrightarrow> id_ok old \<Longrightarrow> id_ok x"
  by (auto simp: into_number_def id_ok_def split: json.splits if_splits)

lemma queue_status_field_ok:
  "queue_status_field k v q = Some q' \<Longrightarrow> numbers_ok v \<Longrightarrow> id_ok (qs_ID q) \<Longrightarrow> id_ok (qs_ID q')"
  by (auto simp: queue_status_field_def dest: into_number_ok split: if_splits)

lemma those_member: "those xs = Some ys \<Longrightarrow> y \<in> set ys \<Longrightarrow> Some y \<in> set xs"
  by (induction xs arbitrary: ys) (auto split: option.splits)

lemma queue_entry_ok:
  assumes "into_struct queue_status_field zero_queue_status v = Some q" and "numbers_ok v"
  shows "id_ok (qs_ID q)"
proof (cases v)
  case (JObj ms)
  then have d: "decode_members queue_status_field ms zero_queue_status = Some q"
    using assms(1) by (simp add: into_struct_def)
  show ?thesis
    by (rule decode_members_keeps[OF d, where P = "\<lambda>q. id_ok (qs_ID q)"])
      (use assms(2) JObj in
        \<open>auto simp: zero_queue_status_def id_ok_zero list_all_iff intro: queue_status_field_ok\<close>)
qed (use assms in \<open>auto simp: into_struct_def zero_queue_status_def id_ok_def\<close>)

lemma into_queue_ok:
  assumes "into_queue v = Some qs" and "numbers_ok v"
  shows "list_all (\<lambda>q. id_ok (qs_ID q)) qs"
proof (cases v)
  case (JArr vs)
  then have t: "those (map (into_struct queue_status_field zero_queue_status) vs) = Some qs"
    using assms(1) by (simp add: into_queue_def into_slice_def)
  show ?thesis
    unfolding list_all_iff
  proof
    fix q
    assume "q \<in> set qs"
    from those_member[OF t this] obtain x where "x \<in> set vs"
      "into_struct queue_status_field zero_queue_status x = Some q" by auto
    then show "id_ok (qs_ID q)" using queue_entry_ok assms(2) JArr by (auto simp: list_all_iff)
  qed
qed (use assms in \<open>auto simp: into_queue_def into_slice_def\<close>)

lemma ListQueue_ids:
  assumes "ListQueue net con tc w = (Inr queue, s)"
  shows "list_all (\<lambda>q. id_ok (qs_ID q)) queue"
proof -
  obtain body where "decodeQueueStatuses body = Inr queue"
    using assms by (auto simp: ListQueue_def split: sum.splits prod.splits)
  then obtain v where "parse_json body = Some v" "into_queue v = Some queue"
    by (auto simp: decodeQueueStatuses_def Unmarshal_def bind_eq_Some_conv split: option.splits)
  then show ?thesis using into_queue_ok parse_json_numbers by blast
qed

text \<open>
  C22. The ids of a queue are JSON numbers, as the type of \<open>QueueStatus.ID\<close> says, or empty; a queue
  with any other id is an error. So a command whose id is not a number, which \<open>decodeCommandID\<close>
  lets through, is answered at its deadline and not before, whatever the queue says.
\<close>

theorem queue_ids_are_numbers:
  assumes "ListQueue net con tc w = (Inr queue, s)"
  shows "list_all (\<lambda>q. qs_ID q = [] \<or> isValidNumber (qs_ID q)) queue
    \<and> (pc_commandID p \<noteq> [] \<and> \<not> isValidNumber (pc_commandID p) \<longrightarrow>
        command_outcome (Inr queue) now ls p
          = (if pc_deadline p < now then Some (failed (timeout_error p)) else None))"
proof -
  note ids = ListQueue_ids[OF assms, unfolded id_ok_def]
  have "find (\<lambda>q. qs_ID q = pc_commandID p) (rev queue) = None"
    if "pc_commandID p \<noteq> []" "\<not> isValidNumber (pc_commandID p)"
    using ids that by (auto simp: find_None_iff list_all_iff)
  then show ?thesis using ids by (simp add: command_outcome_def)
qed

theorem queue_ids_are_numbers_witness:
  "\<exists>queue s. ListQueue wire_net wire_console wire_token done_wire = (Inr queue, s)
     \<and> list_all (\<lambda>q. qs_ID q = [] \<or> isValidNumber (qs_ID q)) queue
     \<and> command_outcome (Inr queue) 0 (Inr []) (one_cmd done_wire ''x'' [] 600) = None
     \<and> decodeCommandID ''[\"x\"]'' = Inr ''x''"
proof -
  let ?p = "one_cmd done_wire ''x'' [] 600"
  have "\<not> isValidNumber ''x''" "decodeCommandID ''[\"x\"]'' = Inr ''x''" by code_simp+
  moreover have "pc_commandID ?p = ''x''" "pc_deadline ?p = 600" by (simp_all add: one_cmd_def done_wire_def answers_def)
  ultimately show ?thesis
    using queue_ids_are_numbers[OF done_queue, of ?p 0 "Inr []"] done_queue by auto
qed

end
