(* ===== verification/Answers.thy ===== *)
theory Answers
  imports CloudClient Listings
begin

text \<open>
  Where the results of the command watcher come from: every result that a caller receives is what
  \<open>command_outcome\<close> reads off the listings that the poller asked for in a tick of this execution,
  whose snapshot had the caller's command. The invariant follows the results from the listing
  over the completions of the tick to the channel and the caller.
\<close>

section \<open>Told by a tick\<close>

text \<open>Before \<open>s\<close> there was a state in which the poller had a snapshot with \<open>p\<close>, and the listings that
  it asks for from there, and the clock, give \<open>r\<close>.\<close>

definition told ::
  "('w, 'z) net_scheme \<Rightarrow> console \<Rightarrow> 'w watcher_state \<Rightarrow> pending_cmd \<Rightarrow> wait_result \<Rightarrow> bool" where
  "told net con s p r =
     (\<exists>s0 snapshot lq tc1 w1 now w2.
        reachable watcher_init (watcher_step net con) s0 \<and> reachable (\<lambda>x. x = s0) (watcher_step net con) s
        \<and> RSnapped snapshot \<in> set (ws_runners s0) \<and> p \<in> set snapshot
        \<and> ListQueue net con (ws_tc s0) (ws_world s0) = (lq, tc1, w1) \<and> rt_now net w1 = (now, w2)
        \<and> command_outcome lq now (fst (ListServers net con tc1 w2)) p = Some r)"

lemma told_step: "told net con s p r \<Longrightarrow> watcher_step net con s t \<Longrightarrow> told net con t p r"
  unfolding told_def by (metis reach_step)

lemma completions_members: "c \<in> set (completions f ps) \<Longrightarrow> cm_cmd c \<in> set ps \<and> f (cm_cmd c) = Some (cm_result c)"
  by (induction ps) (auto split: option.splits)

lemma tick_tells:
  assumes R: "reachable watcher_init (watcher_step net con) s"
    and s: "RSnapped snapshot \<in> set (ws_runners s)" "p \<in> set snapshot"
    and t: "tick_io net con snapshot (ws_tc s) (ws_world s) = (res, tc, w)"
  shows "case res of QueueFailed now \<Rightarrow> pc_deadline p < now \<longrightarrow> told net con s p (failed (timeout_error p))
    | Completed cs \<Rightarrow> \<forall>c \<in> set cs. cm_cmd c = p \<longrightarrow> told net con s p (cm_result c)"
proof -
  obtain lq tc1 w1 where q: "ListQueue net con (ws_tc s) (ws_world s) = (lq, tc1, w1)" by (metis prod_cases3)
  obtain now w2 where n: "rt_now net w1 = (now, w2)" by fastforce
  let ?f = "command_outcome lq now (fst (ListServers net con tc1 w2))"
  have here: "reachable (\<lambda>x. x = s) (watcher_step net con) s" by (rule reach_init) simp
  have told: "told net con s p r" if "?f p = Some r" for r
    unfolding told_def using R here s q n that by blast
  from tick_io_result[OF q n t] show ?thesis
    using told by (auto simp: command_outcome_def dest: completions_members split: sum.splits)
qed

lemma tick_completed_members:
  assumes t: "tick_io net con snapshot tc w = (Completed cs, tc', w')" and "c \<in> set cs"
  shows "cm_cmd c \<in> set snapshot"
proof -
  obtain lq tc1 w1 where q: "ListQueue net con tc w = (lq, tc1, w1)" by (metis prod_cases3)
  obtain now w2 where n: "rt_now net w1 = (now, w2)" by fastforce
  from tick_io_result[OF q n t] obtain f where "cs = completions f snapshot" by (auto split: sum.splits)
  then show ?thesis using completions_members assms(2) by blast
qed

section \<open>The invariant\<close>

text \<open>The command that a caller registered, and that it is the one a command of a snapshot came
  from.\<close>

definition cmd_of :: "waiter \<Rightarrow> pending_cmd option" where
  "cmd_of x = (case x of Waiting p \<Rightarrow> Some p | Received p r \<Rightarrow> Some p | Cancelling p \<Rightarrow> Some p
     | Cancelled p \<Rightarrow> Some p | _ \<Rightarrow> None)"

definition registered :: "'w watcher_state \<Rightarrow> pending_cmd \<Rightarrow> bool" where
  "registered s p = (cmd_of (ws_waiters s (pc_uid p)) = Some p)"

definition runner_told ::
  "('w, 'z) net_scheme \<Rightarrow> console \<Rightarrow> 'w watcher_state \<Rightarrow> runner \<Rightarrow> bool" where
  "runner_told net con s x =
     (case x of
        RSnapped ps \<Rightarrow> list_all (registered s) ps
      | RExpire now ps \<Rightarrow> list_all (\<lambda>p. registered s p
          \<and> (pc_deadline p < now \<longrightarrow> told net con s p (failed (timeout_error p)))) ps
      | RDeliver cs \<Rightarrow> list_all (\<lambda>c. registered s (cm_cmd c) \<and> told net con s (cm_cmd c) (cm_result c)) cs
      | _ \<Rightarrow> True)"

definition sent_told :: "('w, 'z) net_scheme \<Rightarrow> console \<Rightarrow> 'w watcher_state \<Rightarrow> nat \<times> wait_result \<Rightarrow> bool" where
  "sent_told net con s x = (\<exists>p. pc_uid p = fst x \<and> registered s p \<and> told net con s p (snd x))"

definition answers_inv :: "('w, 'z) net_scheme \<Rightarrow> console \<Rightarrow> 'w watcher_state \<Rightarrow> bool" where
  "answers_inv net con s =
     (list_all (\<lambda>(cid, p). registered s p) (ws_pending s)
      \<and> list_all (sent_told net con s) (ws_sent s)
      \<and> (\<forall>u p r. ws_waiters s u = Received p r \<longrightarrow> told net con s p r)
      \<and> list_all (runner_told net con s) (ws_runners s))"

text \<open>A step keeps what is registered and what was told.\<close>

definition keeps :: "('w, 'z) net_scheme \<Rightarrow> console \<Rightarrow> 'w watcher_state \<Rightarrow> 'w watcher_state \<Rightarrow> bool" where
  "keeps net con s t =
     ((\<forall>p. registered s p \<longrightarrow> registered t p) \<and> (\<forall>p r. told net con s p r \<longrightarrow> told net con t p r))"

lemma keeps_runner: "keeps net con s t \<Longrightarrow> runner_told net con s x \<Longrightarrow> runner_told net con t x"
  by (auto simp: runner_told_def keeps_def list_all_iff split: runner.splits)

lemma keeps_sent: "keeps net con s t \<Longrightarrow> sent_told net con s x \<Longrightarrow> sent_told net con t x"
  by (auto simp: sent_told_def keeps_def)

lemma answers_keep:
  assumes I: "answers_inv net con s" and k: "keeps net con s t"
    and pend: "\<And>cid p. (cid, p) \<in> set (ws_pending t) \<Longrightarrow> (cid, p) \<in> set (ws_pending s) \<or> registered t p"
    and sent: "\<And>x. x \<in> set (ws_sent t) \<Longrightarrow> x \<in> set (ws_sent s) \<or> sent_told net con t x"
    and rcv: "\<And>u p r. ws_waiters t u = Received p r \<Longrightarrow> ws_waiters s u = Received p r \<or> told net con t p r"
    and run: "\<And>x. x \<in> set (ws_runners t) \<Longrightarrow> x \<in> set (ws_runners s) \<or> runner_told net con t x"
  shows "answers_inv net con t"
proof -
  have "registered t p" if "(cid, p) \<in> set (ws_pending t)" for cid p
    using pend[OF that] I k by (auto simp: answers_inv_def keeps_def list_all_iff)
  moreover have "sent_told net con t x" if "x \<in> set (ws_sent t)" for x
    using sent[OF that] I keeps_sent[OF k, of x] by (auto simp: answers_inv_def list_all_iff)
  moreover have "told net con t p r" if "ws_waiters t u = Received p r" for u p r
    using rcv[OF that] I k by (auto simp: answers_inv_def keeps_def)
  moreover have "runner_told net con t x" if "x \<in> set (ws_runners t)" for x
    using run[OF that] I keeps_runner[OF k] by (auto simp: answers_inv_def list_all_iff)
  ultimately show ?thesis by (auto simp: answers_inv_def list_all_iff)
qed

lemma keepsI:
  assumes "watcher_step net con s t"
    and "\<And>u q. cmd_of (ws_waiters s u) = Some q \<Longrightarrow> cmd_of (ws_waiters t u) = Some q"
  shows "keeps net con s t"
  using assms told_step unfolding keeps_def registered_def by metis

section \<open>Its steps\<close>

lemma deliver_effect:
  "set (ws_pending (deliver cs s)) \<subseteq> set (ws_pending s)"
  "set (ws_sent (deliver cs s)) \<subseteq> set (ws_sent s) \<union> (\<lambda>c. (pc_uid (cm_cmd c), cm_result c)) ` set cs"
  "ws_waiters (deliver cs s) = ws_waiters s"
proof -
  have one: "set (ws_pending (resolve p r s)) \<subseteq> set (ws_pending s)"
    "set (ws_sent (resolve p r s)) \<subseteq> insert (pc_uid p, r) (set (ws_sent s))"
    "ws_waiters (resolve p r s) = ws_waiters s" for p r and s :: "'w watcher_state"
    by (auto simp: resolve_def delete_eq_filter split: option.splits)
  show "set (ws_pending (deliver cs s)) \<subseteq> set (ws_pending s)"
    by (induction cs s rule: deliver.induct) (use one(1) in fastforce)+
  show "set (ws_sent (deliver cs s)) \<subseteq> set (ws_sent s) \<union> (\<lambda>c. (pc_uid (cm_cmd c), cm_result c)) ` set cs"
    by (induction cs s rule: deliver.induct) (use one(2) in fastforce)+
  show "ws_waiters (deliver cs s) = ws_waiters s"
    by (induction cs s rule: deliver.induct) (simp_all add: one(3))
qed

text \<open>The end of a tick: what was told of the completions is sent.\<close>

lemma deliver_answers:
  assumes I: "answers_inv net con s" and st: "watcher_step net con s (set_runner i RCheck (deliver cs s))"
    and c: "\<And>c. c \<in> set cs \<Longrightarrow> registered s (cm_cmd c) \<and> told net con s (cm_cmd c) (cm_result c)"
  shows "answers_inv net con (set_runner i RCheck (deliver cs s))"
proof -
  let ?t = "set_runner i RCheck (deliver cs s)"
  have w: "ws_waiters ?t = ws_waiters s" "set (ws_pending ?t) \<subseteq> set (ws_pending s)"
    "set (ws_sent ?t) \<subseteq> set (ws_sent s) \<union> (\<lambda>c. (pc_uid (cm_cmd c), cm_result c)) ` set cs"
    "ws_runners ?t = (ws_runners s)[i := RCheck]"
    using deliver_effect[of cs s] by (simp_all add: set_runner_def)
  have k: "keeps net con s ?t" by (rule keepsI[OF st]) (simp only: w(1))
  show ?thesis
  proof (rule answers_keep[OF I k])
    fix x
    assume "x \<in> set (ws_sent ?t)"
    then consider "x \<in> set (ws_sent s)" | c where "c \<in> set cs" "x = (pc_uid (cm_cmd c), cm_result c)"
      using w(3) by auto
    then show "x \<in> set (ws_sent s) \<or> sent_told net con ?t x"
    proof cases
      case (2 c)
      then have "sent_told net con s x" using c[of c] by (auto simp: sent_told_def)
      then show ?thesis using keeps_sent[OF k] by simp
    qed simp
  qed (use w in \<open>auto dest!: set_update_subset_insert[THEN subsetD] simp: runner_told_def\<close>)
qed

text \<open>A runner that moves on, with the world and the token.\<close>

lemma runner_answers:
  assumes I: "answers_inv net con s" and st: "watcher_step net con s t"
    and t: "ws_pending t = ws_pending s" "ws_sent t = ws_sent s" "ws_waiters t = ws_waiters s"
      "set (ws_runners t) \<subseteq> insert x (set (ws_runners s))" "runner_told net con s x"
  shows "answers_inv net con t"
proof -
  have k: "keeps net con s t" by (rule keepsI[OF st]) (simp add: t)
  show ?thesis
    by (rule answers_keep[OF I k]) (use t keeps_runner[OF k] in auto)
qed

text \<open>A caller that moves on.\<close>

lemma waiter_answers:
  assumes I: "answers_inv net con s" and st: "watcher_step net con s t"
    and t: "set (ws_pending t) \<subseteq> set (ws_pending s)" "ws_sent t = ws_sent s" "ws_runners t = ws_runners s"
      "ws_waiters t = (ws_waiters s)(u := x)" "cmd_of x = cmd_of (ws_waiters s u)"
      "\<And>p r. x = Received p r \<Longrightarrow> told net con s p r"
  shows "answers_inv net con t"
proof -
  have k: "keeps net con s t" by (rule keepsI[OF st]) (use t(4,5) in auto)
  show ?thesis
    by (rule answers_keep[OF I k]) (use t k in \<open>auto simp: keeps_def split: if_splits\<close>)
qed

lemma update_members: "set (AList.update k v m) \<subseteq> insert (k, v) (set m)"
  by (induction m) auto

lemma register_answers:
  assumes I: "answers_inv net con s" and W: "watcher_inv s"
    and st: "watcher_step net con s (register cid name d (s\<lparr>ws_world := w\<rparr>))"
  shows "answers_inv net con (register cid name d (s\<lparr>ws_world := w\<rparr>))"
proof -
  let ?t = "register cid name d (s\<lparr>ws_world := w\<rparr>)"
  let ?p = "\<lparr>pc_commandID = cid, pc_enrichName = name, pc_deadline = d, pc_uid = ws_next s\<rparr>"
  have new: "ws_waiters s (ws_next s) = NotStarted" using watcher_invD(7)[OF W] by simp
  have w: "\<exists>x. ws_waiters ?t = (ws_waiters s)(ws_next s := x) \<and> (x = Waiting ?p \<or> (\<exists>e. x = Refused e))"
    by (auto simp: register_def Let_def)
  have k: "keeps net con s ?t"
    by (rule keepsI[OF st]) (use w new in \<open>auto simp: cmd_of_def\<close>)
  have sent: "ws_sent ?t = ws_sent s" and runners: "set (ws_runners ?t) \<subseteq> insert RTick (set (ws_runners s))"
    by (auto simp: register_def Let_def)
  have pend: "ws_pending ?t = ws_pending s \<or> ws_pending ?t = AList.update cid ?p (ws_pending s) \<and> registered ?t ?p"
    by (auto simp: register_def Let_def registered_def cmd_of_def)
  show ?thesis
  proof (rule answers_keep[OF I k])
    fix cid' p
    assume "(cid', p) \<in> set (ws_pending ?t)"
    then show "(cid', p) \<in> set (ws_pending s) \<or> registered ?t p"
      using pend update_members[of cid ?p "ws_pending s"] by auto
  next
    fix u p r
    assume "ws_waiters ?t u = Received p r"
    then show "ws_waiters s u = Received p r \<or> told net con ?t p r" using w by (auto split: if_splits)
  qed (use sent runners in \<open>auto simp: runner_told_def\<close>)
qed

lemma set_runner_subset: "set (ws_runners (set_runner i x s)) \<subseteq> insert x (set (ws_runners s))"
  by (auto simp: set_runner_def dest: set_update_subset_insert[THEN subsetD])

lemma answers_step:
  assumes R: "reachable watcher_init (watcher_step net con) s" and I: "answers_inv net con s"
    and st: "watcher_step net con s t"
  shows "answers_inv net con t"
proof -
  have W: "watcher_inv s" using R by (rule ws.reachable_inv)
  have at: "runner_told net con s x" if "i < length (ws_runners s)" "ws_runners s ! i = x" for i x
    using I that by (auto simp: answers_inv_def list_all_iff)
  from st show ?thesis
  proof (cases rule: watcher_step.cases)
    case (ws_provision now w1 cid name timeout)
    with register_answers[OF I W] st show ?thesis by (simp add: waitProvision_def)
  next
    case (ws_terminate now w1 cid timeout)
    with register_answers[OF I W] st show ?thesis by (simp add: waitTerminate_def)
  next
    case (ws_receive u p r)
    have "(u, r) \<in> set (ws_sent s)" using ws_receive(3) by (rule map_of_SomeD)
    then obtain q where q: "pc_uid q = u" "registered s q" "told net con s q r"
      using I by (auto simp: answers_inv_def sent_told_def list_all_iff)
    then have "q = p" using ws_receive(2) by (simp add: registered_def cmd_of_def)
    then show ?thesis
      using q(3) ws_receive by (intro waiter_answers[OF I st, where u = u]) (auto simp: cmd_of_def)
  next
    case (ws_ctx_done u p)
    then show ?thesis by (intro waiter_answers[OF I st, where u = u]) (auto simp: cmd_of_def)
  next
    case (ws_cancel u p)
    then show ?thesis
      by (intro waiter_answers[OF I st, where u = u]) (auto simp: cmd_of_def cancel_def delete_eq_filter)
  next
    case (ws_snapshot i snapshot)
    have "set snapshot = set (map snd (ws_pending s))" using ws_snapshot(4) by (metis snapshot_of_def set_mset_mset)
    then have "list_all (registered s) snapshot" using I by (auto simp: answers_inv_def list_all_iff)
    then have x: "runner_told net con s (after_snapshot snapshot)" by (simp add: runner_told_def)
    show ?thesis
      by (rule runner_answers[OF I st _ _ _ _ x])
        (use set_runner_subset[of i "after_snapshot snapshot" s] in \<open>simp_all add: ws_snapshot(1) set_runner_def\<close>)
  next
    case (ws_queue_failed i snapshot now tc w)
    have "RSnapped snapshot \<in> set (ws_runners s)" using ws_queue_failed(2,3) by (metis nth_mem)
    with tick_tells[OF R _ _ ws_queue_failed(4)] at[OF ws_queue_failed(2,3)]
    have x: "runner_told net con s (RExpire now snapshot)" by (auto simp: runner_told_def list_all_iff)
    show ?thesis
      by (rule runner_answers[OF I st _ _ _ _ x])
        (use set_runner_subset[of i "RExpire now snapshot" s] in \<open>simp_all add: ws_queue_failed(1) set_runner_def\<close>)
  next
    case (ws_completed i snapshot cs tc w)
    have n: "RSnapped snapshot \<in> set (ws_runners s)" using ws_completed(2,3) by (metis nth_mem)
    have c: "cm_cmd c \<in> set snapshot" if "c \<in> set cs" for c
      using tick_completed_members[OF ws_completed(4) that] .
    have "told net con s (cm_cmd c) (cm_result c)" if "c \<in> set cs" for c
      using tick_tells[OF R n c[OF that] ws_completed(4)] that by simp
    with c at[OF ws_completed(2,3)]
    have x: "runner_told net con s (RDeliver cs)" by (auto simp: runner_told_def list_all_iff)
    show ?thesis
      by (rule runner_answers[OF I st _ _ _ _ x])
        (use set_runner_subset[of i "RDeliver cs" s] in \<open>simp_all add: ws_completed(1) set_runner_def\<close>)
  next
    case (ws_expire i now snapshot)
    let ?cs = "completions (command_outcome (Inl (External [])) now (Inl (External []))) snapshot"
    have t: "t = set_runner i RCheck (deliver ?cs s)"
      using ws_expire(1) expireDeadlines_deliver[of now snapshot s "External []" "Inl (External [])"] by simp
    have "registered s (cm_cmd c) \<and> told net con s (cm_cmd c) (cm_result c)" if "c \<in> set ?cs" for c
      using at[OF ws_expire(2,3)] completions_members[OF that]
      by (auto simp: runner_told_def list_all_iff command_outcome_def split: if_splits)
    then show ?thesis unfolding t by (intro deliver_answers[OF I st[unfolded t]]) blast
  next
    case (ws_deliver i cs)
    have "registered s (cm_cmd c) \<and> told net con s (cm_cmd c) (cm_result c)" if "c \<in> set cs" for c
      using at[OF ws_deliver(2,3)] that by (auto simp: runner_told_def list_all_iff)
    then show ?thesis unfolding ws_deliver(1) by (intro deliver_answers[OF I st[unfolded ws_deliver(1)]]) blast
  next
    case (ws_check i)
    have x: "runner_told net con s RSleep" by (simp add: runner_told_def)
    have "set (ws_runners t) \<subseteq> insert RSleep (set (ws_runners s))"
      using set_runner_subset[of i RSleep s] unfolding ws_check(1)
      by (auto simp: run_check_def dest: in_set_takeD in_set_dropD)
    then show ?thesis
      by (intro runner_answers[OF I st _ _ _ _ x]) (simp_all add: ws_check(1) run_check_def set_runner_def)
  next
    case (ws_ticker i)
    have x: "runner_told net con s RTick" by (simp add: runner_told_def)
    show ?thesis
      by (rule runner_answers[OF I st _ _ _ _ x])
        (use set_runner_subset[of i RTick s] in \<open>simp_all add: ws_ticker(1) set_runner_def\<close>)
  next
    case (ws_world w)
    have x: "runner_told net con s RTick" by (simp add: runner_told_def)
    show ?thesis by (rule runner_answers[OF I st _ _ _ _ x]) (auto simp: ws_world)
  qed
qed

interpretation an: invariant_system watcher_init "watcher_step net con"
  "\<lambda>s. reachable watcher_init (watcher_step net con) s \<and> answers_inv net con s" for net con
proof unfold_locales
  fix s :: "'a watcher_state"
  assume i: "watcher_init s"
  then have "s = newCmdWatcher (ws_tc s) (ws_world s)" by (simp add: watcher_init_def)
  then have "ws_pending s = []" "ws_sent s = []" "ws_runners s = []" "ws_waiters s = (\<lambda>u. NotStarted)"
    by (metis newCmdWatcher_def watcher_state.select_convs)+
  then show "reachable watcher_init (watcher_step net con) s \<and> answers_inv net con s"
    using i by (simp add: reach_init answers_inv_def)
qed (blast intro: reach_step answers_step)

section \<open>What a caller receives\<close>

lemma received_told:
  "reachable watcher_init (watcher_step net con) s \<Longrightarrow> ws_waiters s u = Received p r \<Longrightarrow> told net con s p r"
  using an.reachable_inv unfolding answers_inv_def by blast

lemma told_name:
  assumes "told net con s p r"
  shows "res_err r \<noteq> None \<or> pc_enrichName p = [] \<or> srv_Name (res_server r) = pc_enrichName p"
proof -
  obtain lq now ls where "command_outcome lq now ls p = Some r" using assms unfolding told_def by blast
  then show ?thesis
    by (auto simp: command_outcome_def failed_def find_Some_iff split: if_splits sum.splits option.splits)
qed

text \<open>The wait for a provisioned server.\<close>

lemma WaitProvision_name:
  assumes r: "WaitProvision net hc con cid name timeout s = Some (Inr srv, s')" and n: "name \<noteq> []"
  shows "srv_Name srv = name"
proof -
  obtain res where a: "register_alone net hc con cid name timeout s = Some (res, s')"
    and res: "res_err res = None" "res_server res = srv"
    using r by (auto simp: WaitProvision_def split: option.splits)
  have "cid \<noteq> []"
  proof
    assume "cid = []"
    then show False using a res by (auto simp: register_alone_def register_new failed_def split: prod.splits)
  qed
  from wait_reaches[OF a this] obtain t p where t: "reachable watcher_init (watcher_step net con) t"
    "pc_enrichName p = name" "ws_waiters t 0 = Received p res"
    using res(1) by auto
  from told_name[OF received_told[OF t(1,3)]] t(2) n res show ?thesis by simp
qed

text \<open>
  C20. No result is made up: what a caller of the watcher receives is what a tick of this execution
  read off the listing of the queue, the clock and the listing of the servers for the command of
  the caller; and where the caller asked for a server by name and gets no error, it gets one of
  that name.
\<close>

theorem received_was_listed:
  assumes "reachable watcher_init (watcher_step net con) s" and "ws_waiters s u = Received p r"
  shows "told net con s p r
    \<and> (res_err r \<noteq> None \<or> pc_enrichName p = [] \<or> srv_Name (res_server r) = pc_enrichName p)"
  using received_told[OF assms] told_name by blast

text \<open>A caller that is alone with the poller, for a command that the queue shows as complete.\<close>

theorem received_was_listed_witness:
  "\<exists>s. reachable watcher_init (watcher_step wire_net wire_console) s
     \<and> ws_waiters s 0 = Received (one_cmd done_wire ''7'' ''n'' 600) \<lparr>res_server = done_server, res_err = None\<rparr>
     \<and> told wire_net wire_console s (one_cmd done_wire ''7'' ''n'' 600) \<lparr>res_server = done_server, res_err = None\<rparr>"
proof -
  let ?p = "one_cmd done_wire ''7'' ''n'' 600"
  let ?r = "\<lparr>res_server = done_server, res_err = None\<rparr>"
  let ?w1 = "done_wire\<lparr>wr_answers := tl (wr_answers done_wire),
    wr_log := [(get_request wire_console ''t'' ''/queue'', hd (wr_answers done_wire))]\<rparr>"
  have p: "pc_commandID ?p = ''7''" "pc_enrichName ?p = ''n''" "pc_deadline ?p = 600" "pc_uid ?p = 0"
    by (simp_all add: one_cmd_def done_wire_def answers_def)
  have "one_wait done_wire ''7'' ''n'' 600 = alone ?p (wire_token, done_wire) RTick"
    by (simp add: one_wait_state alone_def p)
  then have R: "reachable watcher_init (watcher_step wire_net wire_console) (alone ?p (wire_token, done_wire) RTick)"
    by (metis one_wait_reachable)
  obtain x tc w where t: "tick_io wire_net wire_console [?p] wire_token done_wire = (x, tc, w)" by (metis prod_cases3)
  have now: "rt_now wire_net ?w1 = (0, ?w1)" by (simp add: wire_defs done_wire_def)
  have "tick_answer ?p x = Some ?r"
    using tick_answer_outcome[OF done_queue now t] done_servers
    by (simp add: command_outcome_def p IsFailure_def status_defs done_server_def)
  then have "wait_round wire_net wire_client wire_console ?p (wire_token, done_wire) = (Inl ?r, tc, w)"
    using t by (simp add: wait_round_def)
  from last_round_reaches[OF R p(4) this] obtain s
    where s: "reachable watcher_init (watcher_step wire_net wire_console) s" "ws_waiters s 0 = Received ?p ?r"
    by auto
  from received_was_listed[OF s] s show ?thesis by blast
qed

end
