(* ===== verification/Pending.thy ===== *)
theory Pending
  imports Errors
begin

text \<open>
  \<open>internal/controller/pending.go\<close>: the tracker of node creations in flight. Its methods
  run under a mutex, so each is one atomic operation on the map of entries; the times they
  read are arguments. The contract the scale-up loop relies on is the locale
  \<open>inflight_tracker\<close>, proved of the model by the interpretation \<open>pt\<close>.
\<close>

section \<open>State and operations\<close>

record entry =
  ent_pool :: string
  ent_createdAt :: int

record tracker =
  tr_ttl :: int
  tr_entries :: "(string, entry) gomap"

definition NewPendingTracker :: "int \<Rightarrow> tracker" where
  "NewPendingTracker ttl = \<lparr>tr_ttl = ttl, tr_entries = []\<rparr>"

definition expired :: "int \<Rightarrow> int \<Rightarrow> entry \<Rightarrow> bool" where
  "expired ttl now e = (time_sub now (ent_createdAt e) > ttl)"

definition gcLocked :: "int \<Rightarrow> tracker \<Rightarrow> tracker" where
  "gcLocked now p =
     p\<lparr>tr_entries := filter (\<lambda>(k, e). \<not> expired (tr_ttl p) now e) (tr_entries p)\<rparr>"

text \<open>\<open>Add\<close> reads the clock twice: in \<open>gcLocked\<close> (\<open>t1\<close>) and for the new entry (\<open>t2\<close>).\<close>

definition Add :: "int \<Rightarrow> int \<Rightarrow> string \<Rightarrow> string \<Rightarrow> tracker \<Rightarrow> bool \<times> tracker" where
  "Add t1 t2 pool nodeName p =
     (let p1 = gcLocked t1 p in
      if map_of (tr_entries p1) nodeName \<noteq> None then (False, p1)
      else (True, p1\<lparr>tr_entries :=
              AList.update nodeName \<lparr>ent_pool = pool, ent_createdAt = t2\<rparr> (tr_entries p1)\<rparr>))"

definition Remove :: "string \<Rightarrow> tracker \<Rightarrow> tracker" where
  "Remove nodeName p = p\<lparr>tr_entries := AList.delete nodeName (tr_entries p)\<rparr>"

definition Count :: "int \<Rightarrow> string \<Rightarrow> tracker \<Rightarrow> int \<times> tracker" where
  "Count now pool p =
     (let p1 = gcLocked now p in
      (int (length (filter (\<lambda>(k, e). ent_pool e = pool) (tr_entries p1))), p1))"

definition wf_tracker :: "tracker \<Rightarrow> bool" where
  "wf_tracker p = wf_map (tr_entries p)"

section \<open>What each operation does to the entries\<close>

lemma map_of_filter_distinct:
  assumes "wf_map m"
  shows "map_of (filter (\<lambda>(k, v). P k v) m) k =
     (case map_of m k of None \<Rightarrow> None | Some v \<Rightarrow> if P k v then Some v else None)"
  using assms
  by (induction m) (auto split: option.splits dest: map_of_SomeD simp: rev_image_eqI)

lemma gcLocked_ttl [simp]: "tr_ttl (gcLocked now p) = tr_ttl p"
  by (simp add: gcLocked_def)

lemma gcLocked_wf [simp]: "wf_tracker p \<Longrightarrow> wf_tracker (gcLocked now p)"
  by (simp add: wf_tracker_def gcLocked_def distinct_map_filter)

lemma gcLocked_lookup:
  "wf_tracker p \<Longrightarrow> map_of (tr_entries (gcLocked now p)) n =
     (case map_of (tr_entries p) n of None \<Rightarrow> None
      | Some e \<Rightarrow> if expired (tr_ttl p) now e then None else Some e)"
  by (auto simp: gcLocked_def wf_tracker_def map_of_filter_distinct split: option.splits)

lemma Add_wf: "wf_tracker p \<Longrightarrow> wf_tracker (snd (Add t1 t2 pool n p))"
  using gcLocked_wf[of p t1]
  by (auto simp: Add_def Let_def wf_tracker_def distinct_update)

lemma Remove_wf: "wf_tracker p \<Longrightarrow> wf_tracker (Remove n p)"
  by (simp add: Remove_def wf_tracker_def distinct_delete)

lemma Count_wf: "wf_tracker p \<Longrightarrow> wf_tracker (snd (Count now pool p))"
  by (simp add: Count_def Let_def)

lemma New_wf: "wf_tracker (NewPendingTracker ttl)"
  by (simp add: NewPendingTracker_def wf_tracker_def)

text \<open>The pool of the live entry of a name: what the tracker promises to remember.\<close>

definition live :: "int \<Rightarrow> tracker \<Rightarrow> string \<Rightarrow> string option" where
  "live now p n =
     (case map_of (tr_entries p) n of None \<Rightarrow> None
      | Some e \<Rightarrow> if expired (tr_ttl p) now e then None else Some (ent_pool e))"

lemma expired_mono: "t \<le> t' \<Longrightarrow> expired ttl t e \<Longrightarrow> expired ttl t' e"
  by (auto simp: expired_def time_sub_def)

lemma live_gc: "wf_tracker p \<Longrightarrow> t \<le> t' \<Longrightarrow> live t' (gcLocked t p) = live t' p"
  by (rule ext) (auto simp: live_def gcLocked_lookup dest: expired_mono split: option.splits)

lemma live_Remove: "live now (Remove n p) = (live now p)(n := None)"
  by (rule ext) (simp add: live_def Remove_def delete_conv' cong: option.case_cong)

lemma live_Add:
  assumes "wf_tracker p" and "t1 \<le> now"
  shows "live now (snd (Add t1 t2 pool n p)) =
    (if live t1 p n \<noteq> None then live now p
     else (live now p)(n := if tr_ttl p < time_sub now t2 then None else Some pool))"
proof (cases "live t1 p n")
  case None
  then have "map_of (tr_entries (gcLocked t1 p)) n = None"
    using assms by (auto simp: gcLocked_lookup live_def split: option.splits if_splits)
  then have A: "snd (Add t1 t2 pool n p) = (gcLocked t1 p)\<lparr>tr_entries :=
      AList.update n \<lparr>ent_pool = pool, ent_createdAt = t2\<rparr> (tr_entries (gcLocked t1 p))\<rparr>"
    by (simp add: Add_def Let_def)
  show ?thesis
  proof (rule ext)
    fix m
    have "live now (snd (Add t1 t2 pool n p)) m =
        (if m = n then (if tr_ttl p < time_sub now t2 then None else Some pool)
         else live now (gcLocked t1 p) m)"
      by (simp add: A live_def update_conv' expired_def cong: option.case_cong)
    then show "live now (snd (Add t1 t2 pool n p)) m =
        (if live t1 p n \<noteq> None then live now p
         else (live now p)(n := if tr_ttl p < time_sub now t2 then None else Some pool)) m"
      using None live_gc[OF assms] by simp
  qed
next
  case (Some q)
  then have "map_of (tr_entries (gcLocked t1 p)) n \<noteq> None"
    using assms by (auto simp: gcLocked_lookup live_def split: option.splits if_splits)
  then show ?thesis using Some assms by (simp add: Add_def Let_def live_gc)
qed

lemma Add_result: "wf_tracker p \<Longrightarrow> fst (Add t1 t2 pool n p) = (live t1 p n = None)"
  by (auto simp: Add_def Let_def gcLocked_lookup live_def split: option.splits)

lemma Add_result_now: "fst (Add t1 t2 pool n p) = fst (Add t1 t1 pool n p)"
  by (simp add: Add_def Let_def)

lemma live_later:
  "live now p n = Some q \<Longrightarrow> now' \<le> now \<Longrightarrow> live now' p n = Some q"
  by (auto simp: live_def expired_def time_sub_def split: option.splits if_splits)

lemma Count_eq_card:
  assumes "wf_tracker p"
  shows "fst (Count now pool p) = int (card {n. live now p n = Some pool})"
proof -
  let ?m = "tr_entries (gcLocked now p)"
  let ?f = "filter (\<lambda>(k, e). ent_pool e = pool) ?m"
  have wf: "wf_map ?m" using gcLocked_wf[OF assms, of now] by (simp add: wf_tracker_def)
  then have "distinct (map fst ?f)" by (rule distinct_map_filter)
  then have "length ?f = card (fst ` set ?f)" by (metis distinct_card length_map set_map)
  moreover have "fst ` set ?f = {n. live now p n = Some pool}"
  proof (rule set_eqI)
    fix n
    have "live now p n = Some pool \<longleftrightarrow> (\<exists>e. map_of ?m n = Some e \<and> ent_pool e = pool)"
      using assms by (auto simp: gcLocked_lookup live_def split: option.splits)
    also have "\<dots> \<longleftrightarrow> (\<exists>e. (n, e) \<in> set ?m \<and> ent_pool e = pool)"
      using wf by simp
    finally show "n \<in> fst ` set ?f \<longleftrightarrow> n \<in> {n. live now p n = Some pool}"
      by force
  qed
  ultimately show ?thesis by (simp add: Count_def Let_def)
qed

section \<open>The contract of the tracker\<close>

text \<open>
  What the scale-up loop needs: a bound on the number of entries recorded for a pool.
  Registering a creation adds at most one entry, to its own pool; nothing else adds any;
  and counting returns the number of entries of the pool that the tracker then holds.
\<close>

locale inflight_tracker =
  fixes add :: "int \<Rightarrow> int \<Rightarrow> string \<Rightarrow> string \<Rightarrow> 't \<Rightarrow> bool \<times> 't"
    and remove :: "string \<Rightarrow> 't \<Rightarrow> 't"
    and count :: "int \<Rightarrow> string \<Rightarrow> 't \<Rightarrow> int \<times> 't"
    and recorded :: "string \<Rightarrow> 't \<Rightarrow> int"
  assumes recorded_add: "recorded q (snd (add t1 t2 pool n t)) \<le>
        recorded q t + (if fst (add t1 t2 pool n t) \<and> pool = q then 1 else 0)"
    and recorded_remove: "recorded q (remove n t) \<le> recorded q t"
    and recorded_count: "recorded q (snd (count now pool t)) \<le> recorded q t"
    and count_recorded: "fst (count now pool t) = recorded pool (snd (count now pool t))"
    and recorded_nonneg: "0 \<le> recorded q t"
begin

text \<open>The removals of finished creations can happen in any number, at any time.\<close>

lemma recorded_removals: "recorded q (foldl (\<lambda>t n. remove n t) t ns) \<le> recorded q t"
proof (induction ns arbitrary: t)
  case (Cons n ns)
  show ?case using Cons[of "remove n t"] recorded_remove[of q n t] by simp
qed simp

lemma count_le: "fst (count now pool t) \<le> recorded pool t"
  using count_recorded recorded_count by metis

lemma count_nonneg: "0 \<le> fst (count now pool t)"
  using count_recorded recorded_nonneg by metis

text \<open>Any sequence of attempts to add to one pool, with removals before each, grows the
  pool by at most the number of successes and no other pool at all.\<close>

lemma recorded_step:
  "recorded q (snd (add t1 t2 pool n (foldl (\<lambda>t n. remove n t) t ns))) \<le>
     recorded q t + (if fst (add t1 t2 pool n (foldl (\<lambda>t n. remove n t) t ns)) \<and> pool = q then 1 else 0)"
  using recorded_add[of q t1 t2 pool n "foldl (\<lambda>t n. remove n t) t ns"] recorded_removals[of q t ns]
  by linarith

end

definition recorded :: "string \<Rightarrow> tracker \<Rightarrow> int" where
  "recorded pool p = int (length (filter (\<lambda>(k, e). ent_pool e = pool) (tr_entries p)))"

lemma recorded_gc: "recorded q (gcLocked now p) \<le> recorded q p"
  by (simp add: recorded_def gcLocked_def length_filter_filter_le del: filter_filter)

lemma update_fresh: "map_of m k = None \<Longrightarrow> AList.update k v m = m @ [(k, v)]"
  by (induction m) (auto split: if_splits)

interpretation pt: inflight_tracker Add Remove Count recorded
proof unfold_locales
  fix q t1 t2 pool n t now
  show "recorded q (snd (Add t1 t2 pool n t)) \<le>
      recorded q t + (if fst (Add t1 t2 pool n t) \<and> pool = q then 1 else 0)"
    using recorded_gc[of q t1 t]
    by (auto simp: Add_def Let_def recorded_def update_fresh)
  show "recorded q (Remove n t) \<le> recorded q t"
    by (simp add: recorded_def Remove_def length_filter_delete)
  show "recorded q (snd (Count now pool t)) \<le> recorded q t"
    using recorded_gc[of q now t] by (simp add: Count_def Let_def)
  show "fst (Count now pool t) = recorded pool (snd (Count now pool t))"
    by (simp add: Count_def Let_def recorded_def)
  show "0 \<le> recorded q t" by (simp add: recorded_def)
qed

text \<open>
  The creation goroutines whose deferred \<open>Remove\<close> ran since the last operation on the
  tracker: the only other users of the tracker besides the control loop.
\<close>

definition settle :: "string list \<Rightarrow> tracker \<Rightarrow> tracker" where
  "settle done p = foldl (\<lambda>t n. Remove n t) p done"

lemmas recorded_settle = pt.recorded_removals[folded settle_def]

lemma settle_wf: "wf_tracker p \<Longrightarrow> wf_tracker (settle done p)"
  by (induction "done" arbitrary: p) (auto simp: settle_def Remove_wf)

lemma settle_Nil [simp]: "settle [] p = p"
  by (simp add: settle_def)

end
