(* ===== verification/ControllerTypes.thy ===== *)
theory ControllerTypes
  imports Pending Config Interfaces
begin

text \<open>
  The \<open>Controller\<close> of \<open>internal/controller/controller.go\<close>: its wiring and its intervals,
  which never change after \<open>New\<close>, and its mutable state, the tracker of creations in flight
  and the lock of the scale-down.
\<close>

text \<open>
  What the control loops ask of the runtime beyond the clock: three random bytes for a node
  name, and the creation goroutines that returned since the tracker was last used (its
  mutex serialises their \<open>Remove\<close> with the operations of a tick).
\<close>

record 'w up_runtime = "'w runtime" +
  up_rand :: "'w \<Rightarrow> (8 word \<times> 8 word \<times> 8 word) \<times> 'w"
  up_finished :: "'w \<Rightarrow> string list \<times> 'w"

record 'w controller =
  c_cfg :: config
  c_pods :: "'w pod_lister"
  c_nodes :: "'w node_lister"
  c_mut :: "'w node_mutator"
  c_kam :: "'w kam_client"
  c_ae :: api_errors
  c_rt :: "'w up_runtime"
  c_scaleUpEvery :: int
  c_scaleDownEvery :: int
  c_nodeReadyTimeout :: int
  c_idleThreshold :: int
  c_drainTimeout :: int

record ctl_state =
  st_creating :: tracker
  st_scaleDownInProgress :: bool

record options =
  opt_ScaleUpEvery :: int
  opt_ScaleDownEvery :: int
  opt_NodeReadyTimeout :: int
  opt_IdleThreshold :: int
  opt_DrainTimeout :: int

definition orDefault :: "int \<Rightarrow> int \<Rightarrow> int" where
  "orDefault d def = (if d \<le> 0 then def else d)"

definition New ::
  "config \<Rightarrow> 'w pod_lister \<Rightarrow> 'w node_lister \<Rightarrow> 'w node_mutator \<Rightarrow> 'w kam_client \<Rightarrow> api_errors
     \<Rightarrow> 'w up_runtime \<Rightarrow> options \<Rightarrow> 'w controller \<times> ctl_state" where
  "New cfg pods nodes mut kam ae rt opts =
     (let c = \<lparr>c_cfg = cfg, c_pods = pods, c_nodes = nodes, c_mut = mut, c_kam = kam, c_ae = ae,
               c_rt = rt,
               c_scaleUpEvery = orDefault (opt_ScaleUpEvery opts) (30 * second),
               c_scaleDownEvery = orDefault (opt_ScaleDownEvery opts) (10 * minute),
               c_nodeReadyTimeout = orDefault (opt_NodeReadyTimeout opts) (5 * minute),
               c_idleThreshold = orDefault (opt_IdleThreshold opts) (10 * minute),
               c_drainTimeout = orDefault (opt_DrainTimeout opts) (5 * minute)\<rparr>
      in (c, \<lparr>st_creating = NewPendingTracker (c_nodeReadyTimeout c),
              st_scaleDownInProgress = False\<rparr>))"

lemma orDefault_pos: "0 < def \<Longrightarrow> 0 < orDefault d def"
  by (simp add: orDefault_def)

end
