(* ===== verification/ScaleUp.thy ===== *)
theory ScaleUp
  imports ControllerTypes PoolMatch
begin

text \<open>
  \<open>internal/controller/scale_up.go\<close> and \<open>cloudinit.go\<close>: one scale-up tick, the creation of
  one node, and the strings they build. The tracker of \<open>pending.go\<close> is shared with the
  creation goroutines: before each operation of the tick on it, the goroutines that finished
  in the meantime have removed their entries.
\<close>

section \<open>Building the request\<close>

definition renderCloudInit :: "config \<Rightarrow> pool \<Rightarrow> string \<Rightarrow> goerr + string" where
  "renderCloudInit cfg pool joinToken =
     (case cfg_CloudInit cfg of
        None \<Rightarrow> Inl (Errorf ''cloud-init template is not loaded'' [])
      | Some tmpl \<Rightarrow>
          (case tmpl \<lparr>ci_ServerIP = cfg_ServerIP cfg, ci_JoinToken = joinToken,
                      ci_NodeLabels = pool_NodeLabels pool, ci_NodeTaints = pool_NodeTaints pool\<rparr> of
             Inl err \<Rightarrow> Inl (Wrapf ''render cloud-init: %w'' [] err)
           | Inr s \<Rightarrow> Inr s))"

definition buildNetwork :: "string \<Rightarrow> string" where
  "buildNetwork vlanName =
     (let parts = [''name=wan,ip=auto''];
          parts = (if vlanName \<noteq> [] then parts @ [''name='' @ vlanName @ '',ip=auto''] else parts)
      in join parts '' '')"

text \<open>\<open>generateNodeName\<close>, given the second of the clock and the three random bytes.\<close>

definition generateNodeName :: "string \<Rightarrow> int \<Rightarrow> 8 word \<times> 8 word \<times> 8 word \<Rightarrow> string" where
  "generateNodeName poolName unix rnd =
     (case rnd of (a, b, c) \<Rightarrow>
        poolName @ ''-'' @ show_int unix @ ''-'' @ hex_encode [a, b, c])"

definition create_request :: "config \<Rightarrow> pool \<Rightarrow> string \<Rightarrow> string \<Rightarrow> create_server_request" where
  "create_request cfg pool nodeName cloudInit =
     \<lparr>req_Name = nodeName,
      req_Password = ''__generate__'',
      req_PasswordValidate = [],
      req_SSHKey = SSHPubKey (cfg_Creds cfg),
      req_Datacenter = cfg_Datacenter cfg,
      req_Image = pool_Image pool,
      req_CPU = show_int (pool_CPUCores pool) @ pool_CPUType pool,
      req_RAM = pool_RAMMB pool,
      req_Disk = ''size='' @ show_int (pool_DiskGB pool),
      req_DailyBackup = [],
      req_Managed = [],
      req_Network = buildNetwork (cfg_VLANName cfg),
      req_Quantity = 0,
      req_BillingCycle = ''hourly'',
      req_MonthlyPackage = [],
      req_PowerOn = ''yes'',
      req_ScriptFile = cloudInit\<rparr>"

section \<open>Creating one node\<close>

text \<open>How the goroutine ends: the branches that the code tells apart in its log.\<close>

datatype create_outcome =
    RenderFailed goerr
  | ServerRecovered server
  | CreateFailed goerr
  | WaitFailed goerr
  | ServerProvisioned server

definition create_body ::
  "'w controller \<Rightarrow> pool \<Rightarrow> string \<Rightarrow> 'w \<Rightarrow> (create_outcome \<times> 'w) option" where
  "create_body c pool nodeName w =
     (case renderCloudInit (c_cfg c) pool (JoinToken (cfg_Creds (c_cfg c))) of
        Inl err \<Rightarrow> Some (RenderFailed err, w)
      | Inr cloudInit \<Rightarrow>
     (case kam_CreateServer (c_kam c) (create_request (c_cfg c) pool nodeName cloudInit) w of
        None \<Rightarrow> None
      | Some (Inl err, w1) \<Rightarrow>
          (case as_ErrCreateRecovered err of
             Some srv \<Rightarrow> Some (ServerRecovered srv, w1)
           | None \<Rightarrow> Some (CreateFailed err, w1))
      | Some (Inr cmdID, w1) \<Rightarrow>
     (case kam_WaitProvision (c_kam c) cmdID nodeName (c_nodeReadyTimeout c) w1 of
        None \<Rightarrow> None
      | Some (Inl err, w2) \<Rightarrow> Some (WaitFailed err, w2)
      | Some (Inr srv, w2) \<Rightarrow> Some (ServerProvisioned srv, w2))))"

text \<open>The deferred \<open>c.creating.Remove(nodeName)\<close> runs on every return; a creation that does
  not return leaves its entry to the time limit of the tracker.\<close>

definition createNode ::
  "'w controller \<Rightarrow> pool \<Rightarrow> string \<Rightarrow> tracker \<times> 'w \<Rightarrow> (create_outcome \<times> tracker \<times> 'w) option" where
  "createNode c pool nodeName s =
     (case s of (tr, w) \<Rightarrow>
      (case create_body c pool nodeName w of
         None \<Rightarrow> None
       | Some (r, w1) \<Rightarrow> Some (r, Remove nodeName tr, w1)))"

section \<open>One tick\<close>

definition call_generateNodeName ::
  "('w, 'z) up_runtime_scheme \<Rightarrow> string \<Rightarrow> 'w \<Rightarrow> string \<times> 'w" where
  "call_generateNodeName rt poolName w =
     (case up_rand rt w of (rnd, w1) \<Rightarrow>
      (case rt_now rt w1 of (now, w2) \<Rightarrow>
        (generateNodeName poolName (now div second) rnd, w2)))"

definition call_Count ::
  "('w, 'z) up_runtime_scheme \<Rightarrow> string \<Rightarrow> tracker \<Rightarrow> 'w \<Rightarrow> int \<times> tracker \<times> 'w" where
  "call_Count rt poolName tr w =
     (case up_finished rt w of (done, w1) \<Rightarrow>
      (case rt_now rt w1 of (now, w2) \<Rightarrow>
      (case Count now poolName (settle done tr) of (n, tr1) \<Rightarrow> (n, tr1, w2))))"

definition call_Add ::
  "('w, 'z) up_runtime_scheme \<Rightarrow> string \<Rightarrow> string \<Rightarrow> tracker \<Rightarrow> 'w \<Rightarrow> bool \<times> tracker \<times> 'w" where
  "call_Add rt poolName nodeName tr w =
     (case up_finished rt w of (done, w1) \<Rightarrow>
      (case rt_now rt w1 of (t1, w2) \<Rightarrow>
       if fst (Add t1 t1 poolName nodeName (settle done tr)) then
         (case rt_now rt w2 of (t2, w3) \<Rightarrow>
            (True, snd (Add t1 t2 poolName nodeName (settle done tr)), w3))
       else (False, snd (Add t1 t1 poolName nodeName (settle done tr)), w2)))"

text \<open>The innermost loop; the result lists the goroutines it starts, as pool and node name.\<close>

fun create_loop ::
  "('w, 'z) up_runtime_scheme \<Rightarrow> pool \<Rightarrow> string \<Rightarrow> nat \<Rightarrow> tracker \<Rightarrow> 'w
     \<Rightarrow> (pool \<times> string) list \<times> tracker \<times> 'w" where
  "create_loop rt pool poolName 0 tr w = ([], tr, w)"
| "create_loop rt pool poolName (Suc k) tr w =
     (case call_generateNodeName rt poolName w of (nodeName, w1) \<Rightarrow>
      (case call_Add rt poolName nodeName tr w1 of (ok, tr1, w2) \<Rightarrow>
      (case create_loop rt pool poolName k tr1 w2 of (started, tr2, w3) \<Rightarrow>
        (if ok then (pool, nodeName) # started else started, tr2, w3))))"

text \<open>How many nodes a pool gets, from the pending pods, the nodes and the creations in
  flight; all counts are lengths of lists, so the subtraction cannot overflow.\<close>

definition to_create :: "pool \<Rightarrow> int \<Rightarrow> int \<Rightarrow> int \<Rightarrow> int" where
  "to_create pool cnt current inFlight =
     (let capacity = pool_MaxNodes pool - (current + inFlight) in
      if capacity \<le> 0 then 0
      else (let toCreate = cnt - inFlight in
            if toCreate \<le> 0 then 0
            else if toCreate > capacity then capacity else toCreate))"

definition scale_pool ::
  "('w, 'z) up_runtime_scheme \<Rightarrow> config \<Rightarrow> (string, int) gomap \<Rightarrow> string \<times> int \<Rightarrow> tracker \<Rightarrow> 'w
     \<Rightarrow> (pool \<times> string) list \<times> tracker \<times> 'w" where
  "scale_pool rt cfg nodesByPool entry tr w =
     (case entry of (poolName, cnt) \<Rightarrow>
      (case PoolByName cfg poolName of
         None \<Rightarrow> ([], tr, w)
       | Some pool \<Rightarrow>
          (let current = at0 nodesByPool poolName in
           case call_Count rt poolName tr w of (inFlight, tr1, w1) \<Rightarrow>
             create_loop rt pool poolName (nat (to_create pool cnt current inFlight)) tr1 w1)))"

fun scale_pools ::
  "('w, 'z) up_runtime_scheme \<Rightarrow> config \<Rightarrow> (string, int) gomap \<Rightarrow> (string \<times> int) list \<Rightarrow> tracker \<Rightarrow> 'w
     \<Rightarrow> (pool \<times> string) list \<times> tracker \<times> 'w" where
  "scale_pools rt cfg nodesByPool [] tr w = ([], tr, w)"
| "scale_pools rt cfg nodesByPool (e # es) tr w =
     (case scale_pool rt cfg nodesByPool e tr w of (started1, tr1, w1) \<Rightarrow>
      (case scale_pools rt cfg nodesByPool es tr1 w1 of (started2, tr2, w2) \<Rightarrow>
        (started1 @ started2, tr2, w2)))"

text \<open>\<open>scaleUp\<close>. The argument \<open>enum\<close> is the order in which \<open>range\<close> visits the map of
  pending pods.\<close>

definition scaleUp ::
  "'w controller \<Rightarrow> ((string, int) gomap \<Rightarrow> (string, int) gomap) \<Rightarrow> tracker \<Rightarrow> 'w
     \<Rightarrow> goerr option \<times> (pool \<times> string) list \<times> tracker \<times> 'w" where
  "scaleUp c enum tr w =
     (case ListPendingPods (c_pods c) w of
        (Inl err, w1) \<Rightarrow> (Some err, [], tr, w1)
      | (Inr pending, w1) \<Rightarrow>
     (let pendingByPool = groupPendingByPool pending (c_cfg c) in
     (case ListNodes (c_nodes c) w1 of
        (Inl err, w2) \<Rightarrow> (Some err, [], tr, w2)
      | (Inr nodes, w2) \<Rightarrow>
     (let nodesByPool = countNodesByPool nodes in
     (case scale_pools (c_rt c) (c_cfg c) nodesByPool (enum pendingByPool) tr w2 of
        (started, tr1, w3) \<Rightarrow> (None, started, tr1, w3))))))"

section \<open>Facts about the tick\<close>

subsection \<open>The decision\<close>

lemma to_create_eq:
  "to_create pool cnt current inFlight =
     max 0 (min (cnt - inFlight) (pool_MaxNodes pool - current - inFlight))"
  by (auto simp: to_create_def Let_def)

lemma to_create_bounds:
  assumes "0 < to_create pool cnt current inFlight"
  shows "current + inFlight + to_create pool cnt current inFlight \<le> pool_MaxNodes pool"
    and "inFlight + to_create pool cnt current inFlight \<le> cnt"
  using assms by (auto simp: to_create_eq)

subsection \<open>The loops\<close>

lemma call_Count_facts:
  assumes "call_Count rt name tr w = (n, tr1, w1)"
  shows "n = recorded name tr1" "recorded q tr1 \<le> recorded q tr" "0 \<le> n"
    "wf_tracker tr \<Longrightarrow> wf_tracker tr1"
proof -
  obtain "done" w0 now where c: "Count now name (settle done tr) = (n, tr1)"
    using assms by (auto simp: call_Count_def split: prod.splits)
  from c show "n = recorded name tr1" using pt.count_recorded by (metis fst_conv snd_conv)
  from c show "recorded q tr1 \<le> recorded q tr"
    using pt.recorded_count[of q now name "settle done tr"] recorded_settle[of q "done" tr] by simp
  from c show "0 \<le> n" using pt.count_nonneg by (metis fst_conv)
  from c show "wf_tracker tr \<Longrightarrow> wf_tracker tr1" using Count_wf settle_wf by (metis snd_conv)
qed

lemma call_Add_facts:
  assumes "call_Add rt name n tr w = (ok, tr1, w1)"
  shows "recorded q tr1 \<le> recorded q tr + (if ok \<and> name = q then 1 else 0)"
    "wf_tracker tr \<Longrightarrow> wf_tracker tr1"
proof -
  obtain dn w1' where f: "up_finished rt w = (dn, w1')" by fastforce
  obtain t1 w2 where n1: "rt_now rt w1' = (t1, w2)" by fastforce
  obtain t2' w3 where n2: "rt_now rt w2 = (t2', w3)" by fastforce
  have "\<exists>t2. tr1 = snd (Add t1 t2 name n (settle dn tr)) \<and> ok = fst (Add t1 t2 name n (settle dn tr))"
    using assms f n1 n2 Add_result_now[of t1 t2' name n "settle dn tr"]
    by (cases "fst (Add t1 t1 name n (settle dn tr))") (auto simp: call_Add_def)
  then obtain t2 where A: "tr1 = snd (Add t1 t2 name n (settle dn tr))"
    "ok = fst (Add t1 t2 name n (settle dn tr))" by blast
  show "recorded q tr1 \<le> recorded q tr + (if ok \<and> name = q then 1 else 0)"
    using pt.recorded_step[of q t1 t2 name n tr dn] by (simp add: A settle_def)
  show "wf_tracker tr \<Longrightarrow> wf_tracker tr1"
    by (simp add: A Add_wf settle_wf)
qed

lemma create_loop_facts:
  assumes "create_loop rt pool name k tr w = (started, tr', w')"
  shows "length started \<le> k"
    and "recorded q tr' \<le> recorded q tr + (if name = q then int (length started) else 0)"
    and "wf_tracker tr \<Longrightarrow> wf_tracker tr'"
    and "(p, n) \<in> set started \<Longrightarrow> p = pool \<and> (\<exists>u r. n = generateNodeName name u r)"
proof -
  have "length started \<le> k
    \<and> recorded q tr' \<le> recorded q tr + (if name = q then int (length started) else 0)
    \<and> (wf_tracker tr \<longrightarrow> wf_tracker tr')
    \<and> ((p, n) \<in> set started \<longrightarrow> p = pool \<and> (\<exists>u r. n = generateNodeName name u r))"
    using assms
  proof (induction k arbitrary: tr w started)
    case (Suc k)
    obtain m w1 where g: "call_generateNodeName rt name w = (m, w1)" by fastforce
    obtain ok tr1 w2 where a: "call_Add rt name m tr w1 = (ok, tr1, w2)" by (metis prod_cases3)
    obtain rest tr2 w3 where r: "create_loop rt pool name k tr1 w2 = (rest, tr2, w3)"
      by (metis prod_cases3)
    have s: "started = (if ok then (pool, m) # rest else rest)" "tr2 = tr'" "w3 = w'"
      using Suc.prems by (auto simp: g a r)
    have n: "\<exists>u r. m = generateNodeName name u r"
      using g by (auto simp: call_generateNodeName_def split: prod.splits)
    from call_Add_facts(1)[OF a, of q] call_Add_facts(2)[OF a] Suc.IH[OF r[unfolded s]] n show ?case
      by (auto simp: s)
  qed simp
  then show "length started \<le> k"
    and "recorded q tr' \<le> recorded q tr + (if name = q then int (length started) else 0)"
    and "wf_tracker tr \<Longrightarrow> wf_tracker tr'"
    and "(p, n) \<in> set started \<Longrightarrow> p = pool \<and> (\<exists>u r. n = generateNodeName name u r)"
    by blast+
qed

text \<open>The goroutines started for a pool.\<close>

definition started_for :: "string \<Rightarrow> (pool \<times> string) list \<Rightarrow> (pool \<times> string) list" where
  "started_for name xs = filter (\<lambda>(p, n). pool_Name p = name) xs"

lemma started_for_append [simp]: "started_for q (xs @ ys) = started_for q xs @ started_for q ys"
  by (simp add: started_for_def)

lemma scale_pool_facts:
  assumes s: "scale_pool rt cfg nbp (name, cnt) tr w = (started, tr', w')"
    and P: "PoolByName cfg q = Some P"
  shows "recorded q tr' \<le> max (recorded q tr) (pool_MaxNodes P - at0 nbp q)"
    and "int (length (started_for q started)) \<le>
       (if name = q then max 0 (min cnt (pool_MaxNodes P - at0 nbp q)) else 0)"
    and "started_for q started = [] \<or> recorded q tr' \<le> pool_MaxNodes P - at0 nbp q"
proof -
  have "recorded q tr' \<le> max (recorded q tr) (pool_MaxNodes P - at0 nbp q)
    \<and> (started_for q started = [] \<or> recorded q tr' \<le> pool_MaxNodes P - at0 nbp q)
    \<and> int (length (started_for q started)) \<le>
       (if name = q then max 0 (min cnt (pool_MaxNodes P - at0 nbp q)) else 0)"
  proof (cases "PoolByName cfg name")
    case None
    then show ?thesis using s by (auto simp: scale_pool_def started_for_def)
  next
    case (Some R)
    obtain inF tr1 w1 where c: "call_Count rt name tr w = (inF, tr1, w1)" by (metis prod_cases3)
    let ?k = "to_create R cnt (at0 nbp name) inF"
    have l: "create_loop rt R name (nat ?k) tr1 w1 = (started, tr', w')"
      using s Some c by (simp add: scale_pool_def)
    note cf = call_Count_facts[OF c]
    note lf = create_loop_facts[OF l]
    have nm: "pool_Name R = name" using Some by (rule pd.lookup_name)
    have all: "pool_Name p = name" if "(p, n) \<in> set started" for p n
      using lf(4)[OF that] nm by simp
    have len: "int (length started) \<le> max 0 ?k" using lf(1) by simp
    show ?thesis
    proof (cases "name = q")
      case True
      with Some P have [simp]: "R = P" by simp
      have "recorded q tr' \<le> inF + int (length started)"
        using lf(2)[of q] cf(1) True by simp
      moreover have "inF \<le> recorded q tr" using cf(1) cf(2)[of q] True by simp
      moreover have "0 < ?k \<Longrightarrow> inF + ?k \<le> pool_MaxNodes P - at0 nbp q"
        using to_create_bounds(1)[of P cnt "at0 nbp name" inF] True by simp
      ultimately have "recorded q tr' \<le> max (recorded q tr) (pool_MaxNodes P - at0 nbp q)
          \<and> (started = [] \<or> recorded q tr' \<le> pool_MaxNodes P - at0 nbp q)"
        using len by (cases "0 < ?k") auto
      moreover have "length (started_for q started) \<le> length started"
        "started = [] \<Longrightarrow> started_for q started = []"
        by (simp_all add: started_for_def)
      moreover have "max 0 ?k \<le> max 0 (min cnt (pool_MaxNodes P - at0 nbp q))"
        using cf(3) True by (auto simp: to_create_eq)
      ultimately show ?thesis using len True by auto
    next
      case False
      have "started_for q started = []"
        using all False by (auto simp: started_for_def filter_empty_conv)
      moreover have "recorded q tr' \<le> recorded q tr" using lf(2)[of q] cf(2)[of q] False by simp
      ultimately show ?thesis using False by simp
    qed
  qed
  then show "recorded q tr' \<le> max (recorded q tr) (pool_MaxNodes P - at0 nbp q)"
    and "int (length (started_for q started)) \<le>
       (if name = q then max 0 (min cnt (pool_MaxNodes P - at0 nbp q)) else 0)"
    and "started_for q started = [] \<or> recorded q tr' \<le> pool_MaxNodes P - at0 nbp q"
    by blast+
qed

lemma scale_pools_facts:
  assumes "scale_pools rt cfg nbp es tr w = (started, tr', w')"
    and "PoolByName cfg q = Some P" and "wf_map es"
  shows "recorded q tr' \<le> max (recorded q tr) (pool_MaxNodes P - at0 nbp q)
    \<and> (started_for q started = [] \<or> recorded q tr' \<le> pool_MaxNodes P - at0 nbp q)
    \<and> int (length (started_for q started)) \<le> max 0 (min (at0 es q) (pool_MaxNodes P - at0 nbp q))"
  using assms(1,3)
proof (induction es arbitrary: tr w started)
  case Nil
  then show ?case by (simp add: started_for_def)
next
  case (Cons e es)
  obtain name cnt where e: "e = (name, cnt)" by fastforce
  obtain s1 tr1 w1 where h: "scale_pool rt cfg nbp (name, cnt) tr w = (s1, tr1, w1)"
    by (metis prod_cases3)
  obtain s2 tr2 w2 where t: "scale_pools rt cfg nbp es tr1 w1 = (s2, tr2, w2)"
    by (metis prod_cases3)
  have r: "started = s1 @ s2" "tr2 = tr'" "w2 = w'" using Cons.prems(1) e h t by auto
  have at: "at0 (e # es) q = (if name = q then cnt else at0 es q)" by (simp add: e at0_def)
  have none: "name = q \<Longrightarrow> at0 es q = 0"
    using Cons.prems(2) e by (auto simp: at0_def map_of_eq_None_iff split: option.splits)
      (metis fst_conv imageI map_of_SomeD)
  have IH: "recorded q tr' \<le> max (recorded q tr1) (pool_MaxNodes P - at0 nbp q)
    \<and> (started_for q s2 = [] \<or> recorded q tr' \<le> pool_MaxNodes P - at0 nbp q)
    \<and> int (length (started_for q s2)) \<le> max 0 (min (at0 es q) (pool_MaxNodes P - at0 nbp q))"
    using Cons.IH[of tr1 w1 s2] t r Cons.prems(2) by simp
  show ?case
    using scale_pool_facts[OF h assms(2)] IH none by (auto simp: r at)
qed

lemma scaleUp_ok:
  assumes "scaleUp c enum tr w = (None, started, tr', w')"
  obtains pending w1 ns w2 where
    "ListPendingPods (c_pods c) w = (Inr pending, w1)" "ListNodes (c_nodes c) w1 = (Inr ns, w2)"
    "scale_pools (c_rt c) (c_cfg c) (countNodesByPool ns) (enum (groupPendingByPool pending (c_cfg c))) tr w2
       = (started, tr', w')"
  using assms by (auto simp: scaleUp_def Let_def split: prod.splits sum.splits)

lemma at0_enum:
  assumes "mset (enum m) = mset m" and "wf_map m"
  shows "at0 (enum m) k = at0 m k" and "wf_map (enum m)"
  using mset_eq_map_of[OF assms] mset_eq_wf_map[OF assms] by (simp_all add: at0_def)

text \<open>Every goroutine started is for a configured pool that has an entry in the map.\<close>

lemma scale_pools_origin:
  assumes "scale_pools rt cfg nbp es tr w = (started, tr', w')" and "(p, n) \<in> set started"
  shows "PoolByName cfg (pool_Name p) = Some p \<and> pool_Name p \<in> fst ` set es
    \<and> (\<exists>u r. n = generateNodeName (pool_Name p) u r)"
  using assms
proof (induction es arbitrary: tr w started)
  case (Cons e es)
  obtain name cnt where e: "e = (name, cnt)" by fastforce
  obtain s1 tr1 w1 where h: "scale_pool rt cfg nbp (name, cnt) tr w = (s1, tr1, w1)"
    by (metis prod_cases3)
  obtain s2 tr2 w2 where t: "scale_pools rt cfg nbp es tr1 w1 = (s2, tr2, w2)"
    by (metis prod_cases3)
  have r: "started = s1 @ s2" "tr2 = tr'" "w2 = w'" using Cons.prems(1) e h t by auto
  show ?case
  proof (cases "(p, n) \<in> set s1")
    case False
    then show ?thesis using Cons.IH[of tr1 w1 s2] Cons.prems(2) t r by auto
  next
    case True
    then obtain R where R: "PoolByName cfg name = Some R"
      using h by (cases "PoolByName cfg name") (auto simp: scale_pool_def)
    then obtain k tr0 w0 where "create_loop rt R name k tr0 w0 = (s1, tr1, w1)"
      using h by (auto simp: scale_pool_def Let_def split: prod.splits)
    with True have "p = R" "\<exists>u r. n = generateNodeName name u r"
      using create_loop_facts(4) by metis+
    with R e show ?thesis using pd.lookup_name[OF R] by auto
  qed
qed simp

section \<open>Node names\<close>

text \<open>The contract of the name generator: a name starts with its pool, and from the name
  the pool, the second and the random bytes can all be read back.\<close>

locale name_generator =
  fixes gen :: "string \<Rightarrow> int \<Rightarrow> 'r \<Rightarrow> string"
  assumes gen_prefix: "prefix (p @ ''-'') (gen p u r)"
    and gen_inj: "0 \<le> u \<Longrightarrow> 0 \<le> u' \<Longrightarrow> gen p u r = gen p' u' r' \<Longrightarrow> p = p' \<and> u = u' \<and> r = r'"
begin

lemma gen_distinct:
  assumes "distinct seeds" and "\<forall>(p, u, r) \<in> set seeds. 0 \<le> u"
  shows "distinct (map (\<lambda>(p, u, r). gen p u r) seeds)"
proof -
  have "inj_on (\<lambda>(p, u, r). gen p u r) (set seeds)"
  proof (rule inj_onI, unfold split_paired_all, simp only: prod.case)
    fix p u r p' u' r'
    assume "(p, u, r) \<in> set seeds" "(p', u', r') \<in> set seeds" and eq: "gen p u r = gen p' u' r'"
    then have "0 \<le> u" "0 \<le> u'" using assms(2) by auto
    then show "(p, u, r) = (p', u', r')" using gen_inj eq by blast
  qed
  then show ?thesis using assms(1) by (simp add: distinct_map)
qed

lemma gen_nonempty: "gen p u r \<noteq> []"
  using gen_prefix[of p u r] by auto

end

lemma split_at_unique:
  "x \<notin> set a \<Longrightarrow> x \<notin> set b \<Longrightarrow> a @ x # c = b @ x # d \<Longrightarrow> a = b \<and> c = d"
  by (induction a arbitrary: b) (auto simp: Cons_eq_append_conv append_eq_Cons_conv)

lemma split_last_unique:
  "x \<notin> set c \<Longrightarrow> x \<notin> set d \<Longrightarrow> a @ x # c = b @ x # d \<Longrightarrow> a = b \<and> c = d"
  using split_at_unique[of x "rev c" "rev d" "rev a" "rev b"]
  by (metis append.assoc append_Cons append_Nil rev.simps(2) rev_append rev_rev_ident set_rev)

interpretation gn: name_generator generateNodeName
proof unfold_locales
  fix p p' u u' and r r' :: "8 word \<times> 8 word \<times> 8 word"
  show "prefix (p @ ''-'') (generateNodeName p u r)"
    by (auto simp: generateNodeName_def split: prod.splits)
  obtain a b c a' b' c' where r: "r = (a, b, c)" "r' = (a', b', c')" by (metis prod_cases3)
  assume u: "0 \<le> u" "0 \<le> u'" and eq: "generateNodeName p u r = generateNodeName p' u' r'"
  have nd: "CHR ''-'' \<notin> set (show_int u)" "CHR ''-'' \<notin> set (show_int u')"
    using u show_nat_no_dash by (auto simp: show_int_def)
  have "(p @ ''-'' @ show_int u) @ CHR ''-'' # hex_encode [a, b, c] =
      (p' @ ''-'' @ show_int u') @ CHR ''-'' # hex_encode [a', b', c']"
    using eq by (simp add: generateNodeName_def r)
  then have 1: "p @ ''-'' @ show_int u = p' @ ''-'' @ show_int u'"
    and 2: "hex_encode [a, b, c] = hex_encode [a', b', c']"
    using split_last_unique[OF hex_encode_no_dash hex_encode_no_dash] by blast+
  from 1 have "p = p' \<and> show_int u = show_int u'"
    using split_last_unique[OF nd, of p p'] by simp
  with 2 show "p = p' \<and> u = u' \<and> r = r'"
    using show_int_inj hex_encode_inj[of "[a, b, c]" "[a', b', c']"] by (auto simp: r)
qed

end
