(* ===== verification/ScaleDown.thy ===== *)
theory ScaleDown
  imports ControllerTypes PoolMatch Drain
begin

text \<open>
  \<open>internal/controller/scale_down.go\<close>: one scale-down tick. The tick lists, per node, how
  the code left its iteration: the branches that it tells apart in its log. A drain or a
  wait may not return, and then the tick does not: \<^const>\<open>None\<close>.
\<close>

section \<open>Operations\<close>

definition isNodeOldEnough :: "'w controller \<Rightarrow> node \<Rightarrow> 'w \<Rightarrow> bool \<times> 'w" where
  "isNodeOldEnough c n w =
     (case node_Created n of
        None \<Rightarrow> (True, w)
      | Some created \<Rightarrow>
          (case rt_now (c_rt c) w of (now, w1) \<Rightarrow> (time_sub now created \<ge> c_idleThreshold c, w1)))"

definition finished_pod :: "pod \<Rightarrow> bool" where
  "finished_pod p = (pod_Phase p = ''Succeeded'' \<or> pod_Phase p = ''Failed'')"

fun all_idle :: "pod list \<Rightarrow> bool" where
  "all_idle [] = True"
| "all_idle (p # ps) =
     (if isDaemonSetPod p \<or> isMirrorPod p then all_idle ps
      else if finished_pod p then all_idle ps
      else False)"

definition isNodeIdle :: "'w controller \<Rightarrow> node \<Rightarrow> 'w \<Rightarrow> (goerr + bool) \<times> 'w" where
  "isNodeIdle c n w =
     (case ListPodsOnNode (c_pods c) (node_Name n) w of
        (Inl err, w1) \<Rightarrow> (Inl err, w1)
      | (Inr pods, w1) \<Rightarrow> (Inr (all_idle pods), w1))"

definition terminateAndDelete :: "'w controller \<Rightarrow> string \<Rightarrow> 'w \<Rightarrow> (goerr option \<times> 'w) option" where
  "terminateAndDelete c nodeName w =
     (case kam_FindServerByName (c_kam c) nodeName w of
        (Inl err, w1) \<Rightarrow>
          if is_ErrServerNotFound err then Some (Delete (c_mut c) nodeName w1)
          else Some (Some err, w1)
      | (Inr srv, w1) \<Rightarrow>
     (case kam_TerminateServer (c_kam c) (srv_ID srv) w1 of
        (Inl err, w2) \<Rightarrow> Some (Some err, w2)
      | (Inr cmdID, w2) \<Rightarrow>
     (case kam_WaitTerminate (c_kam c) cmdID (c_nodeReadyTimeout c) w2 of
        None \<Rightarrow> None
      | Some (_, w3) \<Rightarrow> Some (Delete (c_mut c) nodeName w3))))"

datatype down_outcome =
    NoPool
  | AtMinimum
  | TooYoung
  | IdleCheckFailed goerr
  | Busy
  | DrainFailed goerr
  | TerminateFailed goerr
  | ScaledDown

text \<open>One round of the loop: the outcome for the node and the updated counts.\<close>

definition down_node ::
  "'w controller \<Rightarrow> node \<Rightarrow> (string, int) gomap \<Rightarrow> 'w
     \<Rightarrow> (down_outcome \<times> (string, int) gomap \<times> 'w) option" where
  "down_node c n byPool w =
     (case poolForNode n (c_cfg c) of
        None \<Rightarrow> Some (NoPool, byPool, w)
      | Some pool \<Rightarrow>
      if at0 byPool (pool_Name pool) \<le> pool_MinNodes pool then Some (AtMinimum, byPool, w)
      else
     (case isNodeOldEnough c n w of (old, w1) \<Rightarrow>
      if \<not> old then Some (TooYoung, byPool, w1)
      else
     (case isNodeIdle c n w1 of
        (Inl err, w2) \<Rightarrow> Some (IdleCheckFailed err, byPool, w2)
      | (Inr idle, w2) \<Rightarrow>
      if \<not> idle then Some (Busy, byPool, w2)
      else
     (case drainNode (c_rt c) (c_ae c) (c_mut c) (c_pods c) (node_Name n) (c_drainTimeout c) w2 of
        None \<Rightarrow> None
      | Some (Some err, w3) \<Rightarrow> Some (DrainFailed err, byPool, w3)
      | Some (None, w3) \<Rightarrow>
     (case terminateAndDelete c (node_Name n) w3 of
        None \<Rightarrow> None
      | Some (Some err, w4) \<Rightarrow> Some (TerminateFailed err, byPool, w4)
      | Some (None, w4) \<Rightarrow> Some (ScaledDown, add_at byPool (pool_Name pool) (- 1), w4))))))"

fun down_nodes ::
  "'w controller \<Rightarrow> node list \<Rightarrow> (string, int) gomap \<Rightarrow> 'w
     \<Rightarrow> ((node \<times> down_outcome) list \<times> 'w) option" where
  "down_nodes c [] byPool w = Some ([], w)"
| "down_nodes c (n # ns) byPool w =
     (case down_node c n byPool w of
        None \<Rightarrow> None
      | Some (r, byPool1, w1) \<Rightarrow>
          (case down_nodes c ns byPool1 w1 of
             None \<Rightarrow> None
           | Some (rs, w2) \<Rightarrow> Some ((n, r) # rs, w2)))"

definition scaleDown ::
  "'w controller \<Rightarrow> 'w \<Rightarrow> (goerr option \<times> (node \<times> down_outcome) list \<times> 'w) option" where
  "scaleDown c w =
     (case ListNodes (c_nodes c) w of
        (Inl err, w1) \<Rightarrow> Some (Some err, [], w1)
      | (Inr nodes, w1) \<Rightarrow>
          (case down_nodes c nodes (countNodesByPool nodes) w1 of
             None \<Rightarrow> None
           | Some (rs, w2) \<Rightarrow> Some (None, rs, w2)))"

section \<open>Facts about the tick\<close>

lemma all_idle_iff:
  "all_idle ps \<longleftrightarrow> (\<forall>p \<in> set ps. isDaemonSetPod p \<or> isMirrorPod p \<or> finished_pod p)"
  by (induction ps) auto

text \<open>The nodes scaled down, by the pool in their label.\<close>

definition scaled_down :: "string \<Rightarrow> (node \<times> down_outcome) list \<Rightarrow> node list" where
  "scaled_down name rs =
     nodes_of name (map fst (filter (\<lambda>(n, r). r = ScaledDown) rs))"

lemma scaled_down_Nil [simp]: "scaled_down q [] = []"
  by (simp add: scaled_down_def nodes_of_def)

lemma scaled_down_Cons:
  "scaled_down q ((n, r) # rs) =
     (if r = ScaledDown \<and> map_of (node_Labels n) ''pool'' = Some q then n # scaled_down q rs
      else scaled_down q rs)"
  by (simp add: scaled_down_def nodes_of_def)

lemma down_node_counts:
  assumes "down_node c n byPool w = Some (r, byPool', w')"
  shows "r \<noteq> ScaledDown \<Longrightarrow> byPool' = byPool"
    and "r = ScaledDown \<Longrightarrow>
       \<exists>pool. poolForNode n (c_cfg c) = Some pool \<and> pool_MinNodes pool < at0 byPool (pool_Name pool)
         \<and> byPool' = add_at byPool (pool_Name pool) (- 1)"
  using assms
  by (auto simp: down_node_def split: option.splits if_splits prod.splits sum.splits)

lemma down_nodes_bound:
  assumes "down_nodes c ns byPool w = Some (rs, w')"
    and "PoolByName (c_cfg c) q = Some P"
  shows "int (length (scaled_down q rs)) \<le> max 0 (at0 byPool q - pool_MinNodes P)"
  using assms(1)
proof (induction ns arbitrary: byPool w rs)
  case Nil
  then show ?case by simp
next
  case (Cons n ns)
  obtain r bp1 w1 where h: "down_node c n byPool w = Some (r, bp1, w1)"
    using Cons.prems by (auto split: option.splits)
  obtain rs' w2 where t: "down_nodes c ns bp1 w1 = Some (rs', w2)" and rs: "rs = (n, r) # rs'"
    using Cons.prems h by (auto split: option.splits)
  have IH: "int (length (scaled_down q rs')) \<le> max 0 (at0 bp1 q - pool_MinNodes P)"
    using Cons.IH t Cons.prems rs h by auto
  show ?case
  proof (cases "r = ScaledDown")
    case False
    then show ?thesis using IH down_node_counts(1)[OF h] by (simp add: rs scaled_down_Cons)
  next
    case True
    then obtain pool where p: "poolForNode n (c_cfg c) = Some pool"
      "pool_MinNodes pool < at0 byPool (pool_Name pool)"
      "bp1 = add_at byPool (pool_Name pool) (- 1)"
      using down_node_counts(2)[OF h] by auto
    have l: "map_of (node_Labels n) ''pool'' = Some (pool_Name pool)"
      using p(1) by (rule poolForNode_label)
    show ?thesis
    proof (cases "pool_Name pool = q")
      case same: True
      then have "PoolByName (c_cfg c) q = Some pool"
        using p(1) l by (auto simp: poolForNode_def split: if_splits)
      then have "pool = P" using assms(2) by simp
      then show ?thesis using IH p l same True by (simp add: rs scaled_down_Cons at0_add_at)
    next
      case other: False
      then show ?thesis using IH p l True by (simp add: rs scaled_down_Cons at0_add_at)
    qed
  qed
qed

lemma scaleDown_ok:
  assumes "scaleDown c w = Some (None, rs, w')"
  obtains nodes w1 where "ListNodes (c_nodes c) w = (Inr nodes, w1)"
    "down_nodes c nodes (countNodesByPool nodes) w1 = Some (rs, w')"
  using assms by (auto simp: scaleDown_def split: prod.splits sum.splits option.splits)

lemma down_nodes_fst: "down_nodes c ns byPool w = Some (rs, w') \<Longrightarrow> map fst rs = ns"
  by (induction ns arbitrary: byPool w rs) (auto split: option.splits)

lemma down_nodes_origin:
  "down_nodes c ns byPool w = Some (rs, w') \<Longrightarrow> (n, r) \<in> set rs \<Longrightarrow>
     n \<in> set ns \<and> (\<exists>bp wa bp' wb. down_node c n bp wa = Some (r, bp', wb))"
  by (induction ns arbitrary: byPool w rs) (auto split: option.splits, blast+)

text \<open>The counts with which the round of a node begins: those of the listing, less the nodes scaled
  down before it.\<close>

lemma down_nodes_at:
  assumes "down_nodes c ns byPool w = Some (rs, w')" and "k < length rs"
  shows "\<exists>bp wa bp' wb. down_node c (fst (rs ! k)) bp wa = Some (snd (rs ! k), bp', wb)
    \<and> (\<forall>q. at0 bp q = at0 byPool q - int (length (scaled_down q (take k rs))))"
  using assms
proof (induction ns arbitrary: byPool w rs k)
  case (Cons n ns)
  obtain r bp1 w1 where h: "down_node c n byPool w = Some (r, bp1, w1)"
    using Cons.prems by (auto split: option.splits)
  obtain rs' w2 where t: "down_nodes c ns bp1 w1 = Some (rs', w2)" and rs: "rs = (n, r) # rs'"
    using Cons.prems h by (auto split: option.splits)
  have t': "down_nodes c ns bp1 w1 = Some (rs', w')" using Cons.prems(1) h t by simp
  show ?case
  proof (cases k)
    case 0
    have "down_node c (fst (rs ! k)) byPool w = Some (snd (rs ! k), bp1, w1)
        \<and> (\<forall>q. at0 byPool q = at0 byPool q - int (length (scaled_down q (take k rs))))"
      using h by (simp add: rs 0)
    then show ?thesis by blast
  next
    case (Suc j)
    have "at0 bp1 q - int (length (scaled_down q (take j rs')))
        = at0 byPool q - int (length (scaled_down q (take k rs)))" for q
    proof (cases "r = ScaledDown")
      case True
      from down_node_counts(2)[OF h True] obtain pool where
        p: "poolForNode n (c_cfg c) = Some pool" "bp1 = add_at byPool (pool_Name pool) (- 1)" by blast
      have "map_of (node_Labels n) ''pool'' = Some (pool_Name pool)" using p(1) by (rule poolForNode_label)
      then show ?thesis using True by (simp add: rs Suc scaled_down_Cons p(2) at0_add_at)
    next
      case False
      then show ?thesis using down_node_counts(1)[OF h False] by (simp add: rs Suc scaled_down_Cons)
    qed
    then show ?thesis using Cons.IH[OF t', of j] Cons.prems(2) by (simp add: rs Suc)
  qed
qed simp

text \<open>The two decisions that do not depend on the world.\<close>

lemma down_node_decides:
  assumes "down_node c n byPool w = Some (r, byPool', w')"
  shows "case poolForNode n (c_cfg c) of None \<Rightarrow> r = NoPool
    | Some P \<Rightarrow> r \<noteq> NoPool \<and> (r = AtMinimum \<longleftrightarrow> at0 byPool (pool_Name P) \<le> pool_MinNodes P)"
  using assms by (auto simp: down_node_def split: option.splits if_splits prod.splits sum.splits)

text \<open>What has happened to a node that was scaled down.\<close>

lemma down_node_ScaledDown:
  assumes "down_node c n byPool w = Some (ScaledDown, byPool', w')"
  obtains pool w1 w2 ps w3 where
    "poolForNode n (c_cfg c) = Some pool"
    "isNodeOldEnough c n w = (True, w1)"
    "ListPodsOnNode (c_pods c) (node_Name n) w1 = (Inr ps, w2)" "all_idle ps"
    "drainNode (c_rt c) (c_ae c) (c_mut c) (c_pods c) (node_Name n) (c_drainTimeout c) w2 = Some (None, w3)"
    "terminateAndDelete c (node_Name n) w3 = Some (None, w')"
  using assms
  by (auto simp: down_node_def isNodeIdle_def split: option.splits if_splits prod.splits sum.splits)

lemma isNodeOldEnough_True:
  assumes "isNodeOldEnough c n w = (True, w1)" and "node_Created n = Some created"
  shows "\<exists>now. rt_now (c_rt c) w = (now, w1) \<and> c_idleThreshold c \<le> time_sub now created"
  using assms by (auto simp: isNodeOldEnough_def split: prod.splits)

text \<open>The node object is deleted only when the server is known to be absent or its termination
  was accepted.\<close>

lemma terminateAndDelete_cases:
  assumes "terminateAndDelete c n w = Some (r, w')"
  obtains
    (absent) err w1 where "kam_FindServerByName (c_kam c) n w = (Inl err, w1)"
      "is_ErrServerNotFound err" "Delete (c_mut c) n w1 = (r, w')"
  | (lookup_failed) err where "kam_FindServerByName (c_kam c) n w = (Inl err, w')"
      "\<not> is_ErrServerNotFound err" "r = Some err"
  | (refused) srv w1 err where "kam_FindServerByName (c_kam c) n w = (Inr srv, w1)"
      "kam_TerminateServer (c_kam c) (srv_ID srv) w1 = (Inl err, w')" "r = Some err"
  | (terminated) srv w1 cmd w2 r2 w3 where "kam_FindServerByName (c_kam c) n w = (Inr srv, w1)"
      "kam_TerminateServer (c_kam c) (srv_ID srv) w1 = (Inr cmd, w2)"
      "kam_WaitTerminate (c_kam c) cmd (c_nodeReadyTimeout c) w2 = Some (r2, w3)"
      "Delete (c_mut c) n w3 = (r, w')"
proof -
  obtain f w1 where f: "kam_FindServerByName (c_kam c) n w = (f, w1)" by fastforce
  show thesis
  proof (cases f)
    case (Inl err)
    then show thesis
      using f assms absent[of err w1] lookup_failed[of err]
      by (cases "is_ErrServerNotFound err") (auto simp: terminateAndDelete_def)
  next
    case (Inr srv)
    obtain t w2 where t: "kam_TerminateServer (c_kam c) (srv_ID srv) w1 = (t, w2)" by fastforce
    show thesis
      using f Inr t assms refused[of srv w1] terminated[of srv w1 _ w2]
      by (cases t) (auto simp: terminateAndDelete_def split: option.splits prod.splits)
  qed
qed

end
