(* ===== verification/Controller.thy ===== *)
theory Controller
  imports ScaleUp ScaleDown
begin

text \<open>
  The control loop of \<open>internal/controller/controller.go\<close>: \<open>Run\<close>, the two tick handlers
  with the lock of the scale-down, over the sequence of events its \<open>select\<close> receives.
\<close>

datatype event = CtxDone | UpTick | DownTick

text \<open>What the loop did for an event.\<close>

datatype action =
    RanScaleUp "goerr option" "(pool \<times> string) list"
  | RanScaleDown "goerr option" "(node \<times> down_outcome) list"
  | SkippedScaleDown
  | ShutDown

definition runScaleUp ::
  "'w controller \<Rightarrow> ((string, int) gomap \<Rightarrow> (string, int) gomap) \<Rightarrow> ctl_state \<times> 'w
     \<Rightarrow> action \<times> ctl_state \<times> 'w" where
  "runScaleUp c enum s =
     (case s of (st, w) \<Rightarrow>
      (case scaleUp c enum (st_creating st) w of
         (err, started, tr, w1) \<Rightarrow> (RanScaleUp err started, st\<lparr>st_creating := tr\<rparr>, w1)))"

text \<open>\<open>TryLock\<close>, the tick, and the deferred \<open>Unlock\<close>.\<close>

definition runScaleDown ::
  "'w controller \<Rightarrow> ctl_state \<times> 'w \<Rightarrow> (action \<times> ctl_state \<times> 'w) option" where
  "runScaleDown c s =
     (case s of (st, w) \<Rightarrow>
      if st_scaleDownInProgress st then Some (SkippedScaleDown, st, w)
      else
        (let st1 = st\<lparr>st_scaleDownInProgress := True\<rparr> in
         case scaleDown c w of
           None \<Rightarrow> None
         | Some (err, rs, w1) \<Rightarrow>
             Some (RanScaleDown err rs, st1\<lparr>st_scaleDownInProgress := False\<rparr>, w1)))"

fun run_loop ::
  "'w controller \<Rightarrow> ((string, int) gomap \<Rightarrow> (string, int) gomap) \<Rightarrow> event list \<Rightarrow> ctl_state \<times> 'w
     \<Rightarrow> (action list \<times> ctl_state \<times> 'w) option" where
  "run_loop c enum [] s = Some ([], s)"
| "run_loop c enum (CtxDone # evs) s = Some ([ShutDown], s)"
| "run_loop c enum (UpTick # evs) s =
     (case runScaleUp c enum s of (a, s1) \<Rightarrow>
      (case run_loop c enum evs s1 of None \<Rightarrow> None | Some (as, s2) \<Rightarrow> Some (a # as, s2)))"
| "run_loop c enum (DownTick # evs) s =
     (case runScaleDown c s of
        None \<Rightarrow> None
      | Some (a, s1) \<Rightarrow>
          (case run_loop c enum evs s1 of None \<Rightarrow> None | Some (as, s2) \<Rightarrow> Some (a # as, s2)))"

text \<open>\<open>Run\<close>: one scale-up at once, then the loop; it returns \<open>nil\<close> when the context ends.\<close>

definition Run ::
  "'w controller \<Rightarrow> ((string, int) gomap \<Rightarrow> (string, int) gomap) \<Rightarrow> event list \<Rightarrow> ctl_state \<times> 'w
     \<Rightarrow> (action list \<times> ctl_state \<times> 'w) option" where
  "Run c enum evs s =
     (case runScaleUp c enum s of (a, s1) \<Rightarrow>
      (case run_loop c enum evs s1 of None \<Rightarrow> None | Some (as, s2) \<Rightarrow> Some (a # as, s2)))"

section \<open>Facts about the loop\<close>

lemma runScaleUp_lock:
  "runScaleUp c enum (st, w) = (a, st', w') \<Longrightarrow>
     st_scaleDownInProgress st' = st_scaleDownInProgress st \<and> a \<noteq> SkippedScaleDown \<and> a \<noteq> ShutDown"
  by (auto simp: runScaleUp_def split: prod.splits)

lemma runScaleDown_lock:
  "runScaleDown c (st, w) = Some (a, st', w') \<Longrightarrow> \<not> st_scaleDownInProgress st \<Longrightarrow>
     \<not> st_scaleDownInProgress st' \<and> a \<noteq> SkippedScaleDown \<and> a \<noteq> ShutDown
       \<and> st_creating st' = st_creating st"
  by (auto simp: runScaleDown_def Let_def split: option.splits prod.splits)

lemma run_loop_lock:
  "run_loop c enum evs (st, w) = Some (as, st', w') \<Longrightarrow> \<not> st_scaleDownInProgress st \<Longrightarrow>
     \<not> st_scaleDownInProgress st' \<and> SkippedScaleDown \<notin> set as"
proof (induction evs arbitrary: st w as)
  case Nil
  then show ?case by simp
next
  case (Cons e evs)
  show ?case
  proof (cases e)
    case CtxDone
    then show ?thesis using Cons.prems by auto
  next
    case UpTick
    obtain a st1 w1 where r: "runScaleUp c enum (st, w) = (a, st1, w1)" by (metis prod_cases3)
    obtain as' where "run_loop c enum evs (st1, w1) = Some (as', st', w')" and as: "as = a # as'"
      using Cons.prems UpTick r by (auto split: option.splits)
    with Cons.IH[of st1 w1 as'] runScaleUp_lock[OF r] Cons.prems(2) show ?thesis
      by auto
  next
    case DownTick
    obtain a st1 w1 where r: "runScaleDown c (st, w) = Some (a, st1, w1)"
      using Cons.prems DownTick by (auto split: option.splits)
    obtain as' where "run_loop c enum evs (st1, w1) = Some (as', st', w')" and as: "as = a # as'"
      using Cons.prems DownTick r by (auto split: option.splits)
    with Cons.IH[of st1 w1 as'] runScaleDown_lock[OF r Cons.prems(2)] show ?thesis
      by auto
  qed
qed

lemma run_loop_after_done:
  "run_loop c enum (evs @ CtxDone # rest) s = run_loop c enum (evs @ [CtxDone]) s"
proof (induction evs arbitrary: s)
  case (Cons e evs)
  then show ?case
    by (cases e) (auto split: option.splits prod.splits)
qed simp

end
