(* ===== verification/Samples.thy ===== *)
theory Samples
  imports Controller
begin

text \<open>
  A small simulated world on which the properties are exercised: a clock, the nodes and
  pods of a cluster, the virtual machines of the cloud. The theorems never depend on it;
  their witnesses run the model in it.
\<close>

record sim =
  sim_clock :: int
  sim_nodes :: "node list"
  sim_pods :: "(string \<times> pod) list"
  sim_pending :: "pod list"
  sim_vms :: "string list"
  sim_evicted :: "string list"
  sim_rand :: nat
  sim_cordoned :: "string list"

definition sim_now :: "sim \<Rightarrow> int \<times> sim" where
  "sim_now w = (sim_clock w, w)"

definition sim_wait :: "int \<Rightarrow> sim \<Rightarrow> goerr option \<times> sim" where
  "sim_wait d w = (None, w\<lparr>sim_clock := sim_clock w + d\<rparr>)"

definition sim_runtime :: "sim up_runtime" where
  "sim_runtime =
     \<lparr>rt_now = sim_now, rt_wait = sim_wait, rt_ctx_err = (\<lambda>w. None),
      up_rand = (\<lambda>w. ((0, 0, word_of_nat (sim_rand w)), w\<lparr>sim_rand := Suc (sim_rand w)\<rparr>)),
      up_finished = (\<lambda>w. ([], w))\<rparr>"

definition sim_pod_lister :: "sim pod_lister" where
  "sim_pod_lister =
     \<lparr>ListPendingPods = (\<lambda>w. (Inr (sim_pending w), w)),
      ListPodsOnNode = (\<lambda>n w. (Inr (map snd (filter (\<lambda>(m, p). m = n) (sim_pods w))), w))\<rparr>"

definition sim_node_lister :: "sim node_lister" where
  "sim_node_lister = \<lparr>ListNodes = (\<lambda>w. (Inr (sim_nodes w), w))\<rparr>"

text \<open>Deleting a node object succeeds or fails as the first argument says.\<close>

definition sim_mutator :: "bool \<Rightarrow> sim node_mutator" where
  "sim_mutator delete_ok =
     \<lparr>Cordon = (\<lambda>n w. (None, w\<lparr>sim_cordoned := n # sim_cordoned w\<rparr>)),
      Evict = (\<lambda>p w. (None, w\<lparr>sim_evicted := pod_Name p # sim_evicted w,
                         sim_pods := filter (\<lambda>(m, q). pod_Name q \<noteq> pod_Name p) (sim_pods w)\<rparr>)),
      Delete = (\<lambda>n w. if delete_ok
                  then (None, w\<lparr>sim_nodes := filter (\<lambda>m. node_Name m \<noteq> n) (sim_nodes w)\<rparr>)
                  else (Some (External ''the server is currently unable to handle the request''), w))\<rparr>"

text \<open>Servers are found by name, and their id is their name.\<close>

definition sim_kam :: "sim kam_client" where
  "sim_kam =
     \<lparr>kam_CreateServer = (\<lambda>r w. Some (Inr ''cmd'', w\<lparr>sim_vms := req_Name r # sim_vms w\<rparr>)),
      kam_WaitProvision = (\<lambda>cmd name t w. Some (Inr (zero_server\<lparr>srv_ID := name, srv_Name := name\<rparr>), w)),
      kam_WaitTerminate = (\<lambda>cmd t w. Some (None, w)),
      kam_FindServerByName = (\<lambda>name w.
         if name \<in> set (sim_vms w) then (Inr (zero_server\<lparr>srv_ID := name, srv_Name := name\<rparr>), w)
         else (Inl (ServerNotFoundError name), w)),
      kam_TerminateServer = (\<lambda>sid w. (Inr ''cmd'', w\<lparr>sim_vms := filter (\<lambda>v. v \<noteq> sid) (sim_vms w)\<rparr>))\<rparr>"

definition sim_errors :: api_errors where
  "sim_errors = \<lparr>IsTooManyRequests = (\<lambda>e. e = External ''429''), IsNotFound = (\<lambda>e. e = External ''404'')\<rparr>"

text \<open>One pool, of one to \<open>hi\<close> nodes, whose selector asks for the label of the pool.\<close>

definition sample_pool :: "int \<Rightarrow> int \<Rightarrow> pool" where
  "sample_pool lo hi =
     \<lparr>pool_Name = ''app'', pool_CPUType = ''B'', pool_CPUCores = 2, pool_RAMMB = 2048,
      pool_DiskGB = 20, pool_Image = ''ubuntu'', pool_MinNodes = lo, pool_MaxNodes = hi,
      pool_NodeLabels = ''pool=app'', pool_NodeTaints = [], pool_PodSelector = ''pool=app'',
      pool_parsedSelector = Some (\<lambda>ls. map_of ls ''pool'' = Some ''app'')\<rparr>"

definition sample_creds :: credentials where
  "sample_creds = \<lparr>cred_ClientID = ''id'', cred_Secret = ''sec'', cred_JoinToken = ''tok'',
                   cred_SSHPubKey = ''ssh''\<rparr>"

definition sample_config :: "int \<Rightarrow> int \<Rightarrow> config" where
  "sample_config lo hi =
     \<lparr>cfg_Datacenter = ''EU-FR'', cfg_VLANName = ''lan'', cfg_ServerIP = ''10.0.0.20'',
      cfg_CloudInitTemplatePath = ''t.tpl'', cfg_Pools = [sample_pool lo hi],
      cfg_CloudInit = Some (\<lambda>v. Inr (ci_JoinToken v)), cfg_Creds = sample_creds\<rparr>"

definition sample_pending :: "string \<Rightarrow> pod" where
  "sample_pending name =
     \<lparr>pod_Name = name, pod_Namespace = ''default'', pod_NodeSelector = [(''pool'', ''app'')],
      pod_Phase = ''Pending'',
      pod_Conditions = [\<lparr>cond_Type = ''PodScheduled'', cond_Status = ''False'',
         cond_Reason = ''Unschedulable'', cond_Message = ''0/1 nodes: Insufficient cpu''\<rparr>],
      pod_OwnerKinds = [''ReplicaSet''], pod_Annotations = [], pod_DeletionTimestamp = None\<rparr>"

definition sample_running :: "string \<Rightarrow> string \<Rightarrow> pod" where
  "sample_running name owner =
     (sample_pending name)\<lparr>pod_Phase := ''Running'', pod_Conditions := [], pod_OwnerKinds := [owner]\<rparr>"

definition sample_node :: "string \<Rightarrow> node" where
  "sample_node name =
     \<lparr>node_Name = name, node_Labels = [(''pool'', ''app'')], node_Created = Some 0\<rparr>"

definition sample_world :: sim where
  "sample_world =
     \<lparr>sim_clock = 3600 * second, sim_nodes = [], sim_pods = [], sim_pending = [sample_pending ''p1''],
      sim_vms = [], sim_evicted = [], sim_rand = 0, sim_cordoned = []\<rparr>"

definition sample_controller :: "bool \<Rightarrow> int \<Rightarrow> int \<Rightarrow> sim controller" where
  "sample_controller delete_ok lo hi =
     fst (New (sample_config lo hi) sim_pod_lister sim_node_lister (sim_mutator delete_ok) sim_kam
            sim_errors sim_runtime
            \<lparr>opt_ScaleUpEvery = 0, opt_ScaleDownEvery = 0, opt_NodeReadyTimeout = 0,
             opt_IdleThreshold = 0, opt_DrainTimeout = 0\<rparr>)"

lemmas sim_defs = sim_now_def sim_wait_def sim_runtime_def sim_pod_lister_def sim_node_lister_def
  sim_mutator_def sim_kam_def sim_errors_def sample_pool_def sample_creds_def sample_config_def
  sample_pending_def sample_running_def sample_node_def sample_world_def sample_controller_def
  New_def orDefault_def second_def minute_def zero_server_def

end
