(* ===== verification/ControllerProps.thy ===== *)
theory ControllerProps
  imports Samples
begin

text \<open>
  What the control loops promise: the properties of \<open>internal/controller\<close>, each with a run of
  the model in the simulated world of \<open>Samples\<close> where it has hypotheses.
\<close>

section \<open>Scaling up\<close>


text \<open>A tick in a world with one pending pod, no node and a maximum of one: it starts one
  creation and records it.\<close>

lemma sample_tick:
  "case scaleUp (sample_controller True 0 1) (\<lambda>m. m) (NewPendingTracker (300 * second)) sample_world of
     (e, started, tr, w) \<Rightarrow> e = None \<and> map snd started = [''app-3600-000000''] \<and> recorded ''app'' tr = 1
       \<and> length (started_for ''app'' started) = 1"
  by code_simp

lemma sample_tick_run:
  obtains started tr w where
    "scaleUp (sample_controller True 0 1) (\<lambda>m. m) (NewPendingTracker (300 * second)) sample_world
       = (None, started, tr, w)"
    "map snd started = [''app-3600-000000'']" "recorded ''app'' tr = 1"
    "length (started_for ''app'' started) = 1"
  using sample_tick by (auto split: prod.splits)

lemma sample_lists:
  "ListPendingPods (c_pods (sample_controller b lo hi)) w = (Inr (sim_pending w), w)"
  "ListNodes (c_nodes (sample_controller b lo hi)) w = (Inr (sim_nodes w), w)"
  "PoolByName (c_cfg (sample_controller b lo hi)) ''app'' = Some (sample_pool lo hi)"
  by (simp_all add: sim_defs PoolByName_def)


text \<open>
  C4. A tick creates nodes only on demand: every creation it starts is for a configured pool
  that some pending pod needs, under a name that starts with the pool's, and no pool gets
  more creations than it has pending pods.
\<close>

theorem scaleUp_serves_demand:
  assumes run: "scaleUp c enum tr w = (None, started, tr', w')"
    and pods: "ListPendingPods (c_pods c) w = (Inr pending, w1)"
    and enum: "\<forall>m. mset (enum m) = mset m"
    and mem: "(p, n) \<in> set started"
  shows "PoolByName (c_cfg c) (pool_Name p) = Some p
    \<and> (\<exists>pod \<in> set pending. isPendingForResources pod
         \<and> map_option pool_Name (poolForPod pod (c_cfg c)) = Some (pool_Name p))
    \<and> prefix (pool_Name p @ ''-'') n
    \<and> length (started_for (pool_Name p) started) \<le> length (pods_of (c_cfg c) (pool_Name p) pending)"
proof -
  let ?g = "groupPendingByPool pending (c_cfg c)"
  obtain ns w2 where s:
    "scale_pools (c_rt c) (c_cfg c) (countNodesByPool ns) (enum ?g) tr w2 = (started, tr', w')"
    using run pods by (auto elim!: scaleUp_ok)
  have g: "mset (enum ?g) = mset ?g" "wf_map ?g" using enum groupPendingByPool_wf by auto
  note o = scale_pools_origin[OF s mem]
  have "set (enum ?g) = set ?g" using g(1) by (rule mset_eq_setD)
  then have "pods_of (c_cfg c) (pool_Name p) pending \<noteq> []"
    using o groupPendingByPool_keys[of pending "c_cfg c"] by auto
  then have d: "\<exists>pod \<in> set pending. isPendingForResources pod
      \<and> map_option pool_Name (poolForPod pod (c_cfg c)) = Some (pool_Name p)"
    by (auto simp: pods_of_def filter_empty_conv pending_pool_def split: if_splits option.splits)
  have "int (length (started_for (pool_Name p) started)) \<le> max 0 (at0 (enum ?g) (pool_Name p))"
    using scale_pools_facts[OF s _ at0_enum(2)[of enum ?g, OF g], of "pool_Name p" p] o by linarith
  then have "length (started_for (pool_Name p) started) \<le> length (pods_of (c_cfg c) (pool_Name p) pending)"
    by (simp add: at0_enum(1)[of enum ?g, OF g] groupPendingByPool_count)
  then show ?thesis using o d gn.gen_prefix by blast
qed

theorem scaleUp_serves_demand_witness:
  "\<exists>started tr w p. scaleUp (sample_controller True 0 1) (\<lambda>m. m) (NewPendingTracker (300 * second)) sample_world
       = (None, started, tr, w)
     \<and> (p, ''app-3600-000000'') \<in> set started \<and> prefix (pool_Name p @ ''-'') ''app-3600-000000''"
proof -
  obtain started tr w where run:
    "scaleUp (sample_controller True 0 1) (\<lambda>m. m) (NewPendingTracker (300 * second)) sample_world
       = (None, started, tr, w)" and n: "map snd started = [''app-3600-000000'']"
    by (rule sample_tick_run)
  then obtain p where "(p, ''app-3600-000000'') \<in> set started" by auto
  with run scaleUp_serves_demand[OF run sample_lists(1) _ this] show ?thesis by blast
qed

text \<open>
  The number of creations that a tick decides on is the smaller of the pods that are not
  yet covered by creations in flight and the room left under the maximum, and never
  negative.
\<close>

theorem to_create_is_min:
  "to_create pool cnt current inFlight =
     max 0 (min (cnt - inFlight) (pool_MaxNodes pool - current - inFlight))"
  by (rule to_create_eq)

text \<open>
  When a listing fails the tick has no effect: it starts nothing, leaves the tracker as it
  is and returns the error of the listing.
\<close>

lemma scaleUp_listing_error:
  "fst (ListPendingPods (c_pods c) w) = Inl err
     \<or> (\<exists>ps w1. ListPendingPods (c_pods c) w = (Inr ps, w1) \<and> fst (ListNodes (c_nodes c) w1) = Inl err)
   \<Longrightarrow> \<exists>w'. scaleUp c enum tr w = (Some err, [], tr, w')"
  by (auto simp: scaleUp_def split: prod.splits sum.splits)

section \<open>The tracker\<close>

text \<open>
  C6. The tracker implements a map from node names to pools, of the entries not older than the
  time limit: adding a name that is not in the map stores it, adding one that is changes
  nothing and answers false, removing deletes it, and the count of a pool is the number of
  names mapped to it. The keys stay distinct throughout.
\<close>

theorem tracker_refines_map:
  assumes "wf_tracker p" and "t1 \<le> now"
  shows "fst (Count now pool p) = int (card {n. live now p n = Some pool})
    \<and> fst (Add t1 t2 pool n p) = (live t1 p n = None)
    \<and> live now (snd (Add t1 t2 pool n p)) =
        (if live t1 p n \<noteq> None then live now p
         else (live now p)(n := if tr_ttl p < time_sub now t2 then None else Some pool))
    \<and> live now (Remove n p) = (live now p)(n := None)
    \<and> live now (snd (Count t1 pool p)) = live now p
    \<and> wf_tracker (snd (Add t1 t2 pool n p)) \<and> wf_tracker (Remove n p) \<and> wf_tracker (snd (Count now pool p))"
  using assms Count_eq_card Add_result live_Add live_Remove Add_wf Remove_wf Count_wf live_gc
  by (simp add: Count_def Let_def)

theorem tracker_refines_map_witness:
  "fst (Count 5 ''app'' (snd (Add 3 4 ''app'' ''n1'' (NewPendingTracker 10)))) = 1"
proof -
  let ?p = "NewPendingTracker 10"
  let ?q = "snd (Add 3 4 ''app'' ''n1'' ?p)"
  have wf: "wf_tracker ?p" by (rule New_wf)
  have l: "live 5 ?q = [''n1'' \<mapsto> ''app'']"
    using tracker_refines_map[OF wf, of 3 5 "''app''" 4 "''n1''"]
    by (auto simp: live_def NewPendingTracker_def time_sub_def fun_upd_def)
  have "wf_tracker ?q" using tracker_refines_map[OF wf, of 3 5 "''app''" 4 "''n1''"] by simp
  then have "fst (Count 5 ''app'' ?q) = int (card {n. live 5 ?q n = Some ''app''})"
    using tracker_refines_map[of ?q 5 5 "''app''"] by simp
  also have "{n. live 5 ?q n = Some ''app''} = {''n1''}" by (auto simp: l)
  finally show ?thesis by simp
qed

section \<open>Scaling down\<close>


definition idle_pair :: sim where
  "idle_pair = sample_world\<lparr>sim_nodes := [sample_node ''a'', sample_node ''b''],
     sim_vms := [''a'', ''b''], sim_pods := [(''a'', sample_running ''log'' ''DaemonSet'')]\<rparr>"

lemma idle_pair_tick:
  "case scaleDown (sample_controller True 1 3) idle_pair of None \<Rightarrow> False
   | Some (e, rs, w) \<Rightarrow> e = None
       \<and> map (\<lambda>(n, r). (node_Name n, r)) rs = [(''a'', ScaledDown), (''b'', AtMinimum)]
       \<and> length (scaled_down ''app'' rs) = 1
       \<and> sim_vms w = [''b''] \<and> map node_Name (sim_nodes w) = [''b'']"
  by code_simp

lemma idle_pair_run:
  obtains rs w where "scaleDown (sample_controller True 1 3) idle_pair = Some (None, rs, w)"
    "map (\<lambda>(n, r). (node_Name n, r)) rs = [(''a'', ScaledDown), (''b'', AtMinimum)]"
    "length (scaled_down ''app'' rs) = 1"
  using idle_pair_tick by (auto split: option.splits prod.splits)




text \<open>
  C9. Every node that was listed is decided on, in the order of the listing: it is passed over as
  being of no pool exactly when its label names no configured pool, and as protected by the minimum exactly when the nodes of its pool, less those that the tick has
  scaled down before it, are no more than the minimum; any other node is checked and, if idle,
  drained.
\<close>

theorem scaleDown_decides_each_node:
  assumes run: "scaleDown c w = Some (None, rs, w')"
    and nodes: "ListNodes (c_nodes c) w = (Inr ns, w1)" and k: "k < length ns"
  shows "map fst rs = ns
    \<and> (case poolForNode (ns ! k) (c_cfg c) of
         None \<Rightarrow> snd (rs ! k) = NoPool
       | Some P \<Rightarrow> snd (rs ! k) \<noteq> NoPool
           \<and> (snd (rs ! k) = AtMinimum \<longleftrightarrow>
               int (length (nodes_of (pool_Name P) ns)) - int (length (scaled_down (pool_Name P) (take k rs)))
                 \<le> pool_MinNodes P))"
proof -
  have d: "down_nodes c ns (countNodesByPool ns) w1 = Some (rs, w')"
    using run nodes by (auto elim!: scaleDown_ok)
  have f: "map fst rs = ns" by (rule down_nodes_fst[OF d])
  then have l: "k < length rs" "ns ! k = fst (rs ! k)" using k by auto
  from down_nodes_at[OF d l(1)] obtain bp wa bp' wb where
    n: "down_node c (ns ! k) bp wa = Some (snd (rs ! k), bp', wb)"
    and bp: "\<And>q. at0 bp q = at0 (countNodesByPool ns) q - int (length (scaled_down q (take k rs)))"
    unfolding l(2) by blast
  show ?thesis
    using down_node_decides[OF n] f by (simp add: bp countNodesByPool_count split: option.splits)
qed

theorem scaleDown_decides_each_node_witness:
  "\<exists>rs w. scaleDown (sample_controller True 1 3) idle_pair = Some (None, rs, w)
     \<and> map fst rs = sim_nodes idle_pair \<and> snd (rs ! 1) = AtMinimum"
proof -
  obtain rs w where run: "scaleDown (sample_controller True 1 3) idle_pair = Some (None, rs, w)"
    and m: "map (\<lambda>(n, r). (node_Name n, r)) rs = [(''a'', ScaledDown), (''b'', AtMinimum)]"
    by (rule idle_pair_run)
  have n: "1 < length (sim_nodes idle_pair)" by (simp add: idle_pair_def)
  have "snd (rs ! 1) = AtMinimum" using m by (auto simp: Cons_eq_map_conv map_eq_Cons_conv)
  with scaleDown_decides_each_node[OF run sample_lists(2) n] run show ?thesis by blast
qed

section \<open>Draining\<close>


lemma sim_clock_ok: "clock_progress sim_clock sim_runtime"
  "keeps_time sim_clock (ListPodsOnNode sim_pod_lister n)"
  "keeps_time sim_clock (Evict (sim_mutator b) p)"
  by (simp_all add: clock_progress_def keeps_time_def sim_defs)


text \<open>
  C12. A drain that reports success has cordoned the node, and the pods that the last listing
  shows on it are all DaemonSet pods, mirror pods or already being deleted.
\<close>

theorem drain_success_leaves_nothing_evictable:
  assumes "drainNode rt ae mut pods n timeout w = Some (None, w')"
  shows "\<exists>w0 w1 ps. Cordon mut n w = (None, w0) \<and> ListPodsOnNode pods n w1 = (Inr ps, w')
    \<and> list_all (\<lambda>p. isDaemonSetPod p \<or> isMirrorPod p \<or> pod_DeletionTimestamp p \<noteq> None) ps"
proof -
  obtain w0 now w1 w2 ps where c: "Cordon mut n w = (None, w0)"
    and l: "ListPodsOnNode pods n w2 = (Inr ps, w')" and e: "filterEvictable ps = []"
    using drainNode_success[OF assms] by metis
  from e have "list_all (\<lambda>p. isDaemonSetPod p \<or> isMirrorPod p \<or> pod_DeletionTimestamp p \<noteq> None) ps"
    by (auto simp: filterEvictable_eq filter_empty_conv evictable_def list_all_iff)
  with c l show ?thesis by blast
qed

definition busy_node :: sim where
  "busy_node = sample_world\<lparr>sim_nodes := [sample_node ''a''],
     sim_pods := [(''a'', sample_running ''log'' ''DaemonSet''), (''a'', sample_running ''web'' ''ReplicaSet'')]\<rparr>"

lemma busy_node_drain:
  "case drainNode sim_runtime sim_errors (sim_mutator True) sim_pod_lister ''a'' (300 * second) busy_node of
     None \<Rightarrow> False
   | Some (r, w) \<Rightarrow> r = None \<and> sim_evicted w = [''web''] \<and> sim_cordoned w = [''a'']
       \<and> map (pod_Name \<circ> snd) (sim_pods w) = [''log''] \<and> sim_clock w = 3602 * second"
  by code_simp

theorem drain_success_leaves_nothing_evictable_witness:
  "\<exists>w' w0. drainNode sim_runtime sim_errors (sim_mutator True) sim_pod_lister ''a'' (300 * second) busy_node
       = Some (None, w')
     \<and> Cordon (sim_mutator True) ''a'' busy_node = (None, w0)"
proof -
  obtain w' where d: "drainNode sim_runtime sim_errors (sim_mutator True) sim_pod_lister ''a'' (300 * second)
      busy_node = Some (None, w')"
    using busy_node_drain by (auto split: option.splits prod.splits)
  from drain_success_leaves_nothing_evictable[OF d] d show ?thesis by blast
qed

end
