(* ===== verification/Demand.thy ===== *)
theory Demand
  imports ControllerProps
begin

text \<open>
  That a tick of \<open>scaleUp\<close> starts as many creations as it should, and not only at most as many: a
  creation it decides on is left out only where the generated name is tracked already, so with a
  generator of fresh names each pool gets the number that the counts of the tick say.
\<close>

section \<open>Fresh names\<close>

text \<open>
  The names given out up to a state of the world are in \<open>past\<close>; the comment of
  \<open>generateNodeName\<close> counts on the clock and on \<open>crypto/rand\<close> that a name is not given out twice.
\<close>

definition fresh_names :: "('w \<Rightarrow> string set) \<Rightarrow> ('w, 'z) up_runtime_scheme \<Rightarrow> bool" where
  "fresh_names past rt =
     ((\<forall>pool w n w'. call_generateNodeName rt pool w = (n, w') \<longrightarrow> n \<notin> past w \<and> insert n (past w) \<subseteq> past w')
      \<and> (\<forall>w. past w \<subseteq> past (snd (up_finished rt w))) \<and> (\<forall>w. past w \<subseteq> past (snd (rt_now rt w))))"

definition names_of :: "tracker \<Rightarrow> string set" where
  "names_of tr = fst ` set (tr_entries tr)"

lemma fresh_name:
  "fresh_names past rt \<Longrightarrow> call_generateNodeName rt pool w = (n, w') \<Longrightarrow>
     n \<notin> past w \<and> insert n (past w) \<subseteq> past w'"
  by (simp add: fresh_names_def)

lemma fresh_finished: "fresh_names past rt \<Longrightarrow> up_finished rt w = (d, w') \<Longrightarrow> past w \<subseteq> past w'"
  unfolding fresh_names_def by (metis snd_conv)

lemma fresh_now: "fresh_names past rt \<Longrightarrow> rt_now rt w = (t, w') \<Longrightarrow> past w \<subseteq> past w'"
  unfolding fresh_names_def by (metis snd_conv)

lemma names_gc: "names_of (gcLocked now tr) \<subseteq> names_of tr"
  by (auto simp: names_of_def gcLocked_def)

lemma names_Remove: "names_of (Remove n tr) \<subseteq> names_of tr"
  by (auto simp: names_of_def Remove_def delete_eq_filter)

lemma names_settle: "names_of (settle d tr) \<subseteq> names_of tr"
  by (induction d arbitrary: tr) (auto simp: settle_def dest: subsetD[OF names_Remove])

lemma names_Count: "names_of (snd (Count now pool tr)) \<subseteq> names_of tr"
  by (simp add: Count_def Let_def names_gc)

lemma Add_fresh:
  assumes "n \<notin> names_of tr"
  shows "fst (Add t1 t2 pool n tr)" and "names_of (snd (Add t1 t2 pool n tr)) \<subseteq> insert n (names_of tr)"
proof -
  have "n \<notin> fst ` set (tr_entries (gcLocked t1 tr))"
    using assms names_gc[of t1 tr] by (auto simp: names_of_def)
  then have none: "map_of (tr_entries (gcLocked t1 tr)) n = None" by (simp add: map_of_eq_None_iff)
  then show "fst (Add t1 t2 pool n tr)" by (simp add: Add_def Let_def)
  show "names_of (snd (Add t1 t2 pool n tr)) \<subseteq> insert n (names_of tr)"
    using none names_gc[of t1 tr] by (auto simp: Add_def Let_def names_of_def dom_update)
qed

section \<open>The loops\<close>

lemma call_Count_fresh:
  assumes F: "fresh_names past rt" and c: "call_Count rt name tr w = (k, tr1, w1)"
    and "names_of tr \<subseteq> past w"
  shows "names_of tr1 \<subseteq> past w1"
proof -
  obtain d w0 where d: "up_finished rt w = (d, w0)" by fastforce
  obtain now w2 where n: "rt_now rt w0 = (now, w2)" by fastforce
  have "tr1 = snd (Count now name (settle d tr))" "w1 = w2" using c d n by (auto simp: call_Count_def split: prod.splits)
  then show ?thesis
    using names_Count[of now name "settle d tr"] names_settle[of d tr] assms(3)
      fresh_finished[OF F d] fresh_now[OF F n] by blast
qed

lemma call_Add_fresh:
  assumes F: "fresh_names past rt" and a: "call_Add rt name n tr w = (ok, tr1, w1)"
    and n: "n \<notin> names_of tr" and sub: "insert n (names_of tr) \<subseteq> past w"
  shows "ok" and "names_of tr1 \<subseteq> past w1"
proof -
  obtain d w0 where d: "up_finished rt w = (d, w0)" by fastforce
  obtain t1 w2 where t1: "rt_now rt w0 = (t1, w2)" by fastforce
  obtain t2 w3 where t2: "rt_now rt w2 = (t2, w3)" by fastforce
  have s: "n \<notin> names_of (settle d tr)" "names_of (settle d tr) \<subseteq> names_of tr"
    using n names_settle[of d tr] by auto
  have "ok \<and> tr1 = snd (Add t1 t2 name n (settle d tr)) \<and> w1 = w3"
    using a d t1 t2 Add_fresh(1)[OF s(1), of t1 t1 name] by (simp add: call_Add_def)
  then show "ok" "names_of tr1 \<subseteq> past w1"
    using Add_fresh(2)[OF s(1), of t1 t2 name] s(2) sub
      fresh_finished[OF F d] fresh_now[OF F t1] fresh_now[OF F t2] by blast+
qed

lemma create_loop_fresh:
  assumes F: "fresh_names past rt" and "create_loop rt pool name k tr w = (started, tr', w')"
    and "names_of tr \<subseteq> past w"
  shows "length started = k \<and> fst ` set started \<subseteq> {pool} \<and> names_of tr' \<subseteq> past w'"
  using assms(2,3)
proof (induction k arbitrary: tr w started)
  case (Suc k)
  obtain m w1 where g: "call_generateNodeName rt name w = (m, w1)" by fastforce
  obtain ok tr1 w2 where a: "call_Add rt name m tr w1 = (ok, tr1, w2)" by (metis prod_cases3)
  obtain rest tr2 w3 where r: "create_loop rt pool name k tr1 w2 = (rest, tr2, w3)" by (metis prod_cases3)
  have m: "m \<notin> names_of tr" "insert m (names_of tr) \<subseteq> past w1"
    using fresh_name[OF F g] Suc.prems(2) by auto
  note A = call_Add_fresh[OF F a m]
  have "started = (pool, m) # rest" "tr2 = tr'" "w3 = w'" using Suc.prems(1) A(1) by (auto simp: g a r)
  then show ?case using Suc.IH[of tr1 w2 rest] A(2) r by auto
qed simp

lemma scale_pool_fresh:
  assumes F: "fresh_names past rt" and s: "scale_pool rt cfg nbp (name, cnt) tr w = (started, tr', w')"
    and sub: "names_of tr \<subseteq> past w" and P: "PoolByName cfg q = Some P"
  shows "names_of tr' \<subseteq> past w'"
    and "name \<noteq> q \<Longrightarrow> started_for q started = [] \<and> recorded q tr' \<le> recorded q tr"
    and "name = q \<Longrightarrow> \<exists>k. 0 \<le> k \<and> k \<le> recorded q tr
       \<and> int (length (started_for q started)) = to_create P cnt (at0 nbp q) k"
proof -
  have "names_of tr' \<subseteq> past w'
    \<and> (name \<noteq> q \<longrightarrow> started_for q started = [] \<and> recorded q tr' \<le> recorded q tr)
    \<and> (name = q \<longrightarrow> (\<exists>k. 0 \<le> k \<and> k \<le> recorded q tr
       \<and> int (length (started_for q started)) = to_create P cnt (at0 nbp q) k))"
  proof (cases "PoolByName cfg name")
    case None
    then show ?thesis using s sub P by (auto simp: scale_pool_def started_for_def)
  next
    case (Some R)
    obtain k tr1 w1 where c: "call_Count rt name tr w = (k, tr1, w1)" by (metis prod_cases3)
    have l: "create_loop rt R name (nat (to_create R cnt (at0 nbp name) k)) tr1 w1 = (started, tr', w')"
      using s Some c by (simp add: scale_pool_def)
    note C = call_Count_facts(1-3)[OF c]
    note L = create_loop_fresh[OF F l call_Count_fresh[OF F c sub]]
    have R: "pool_Name R = name" using Some by (rule pd.lookup_name)
    have "started_for q started = (if name = q then started else [])"
      using L R by (auto simp: started_for_def filter_empty_conv filter_id_conv)
    moreover have "0 \<le> to_create R cnt (at0 nbp name) k" by (simp add: to_create_eq)
    moreover have "recorded q tr' \<le> recorded q tr1" if "name \<noteq> q"
      using create_loop_facts(2)[OF l, of q] that by simp
    ultimately show ?thesis using L C(1,3) C(2)[of name] C(2)[of q] P Some by (auto intro!: exI[of _ k])
  qed
  then show "names_of tr' \<subseteq> past w'"
    and "name \<noteq> q \<Longrightarrow> started_for q started = [] \<and> recorded q tr' \<le> recorded q tr"
    and "name = q \<Longrightarrow> \<exists>k. 0 \<le> k \<and> k \<le> recorded q tr
       \<and> int (length (started_for q started)) = to_create P cnt (at0 nbp q) k"
    by blast+
qed

lemma scale_pools_fresh:
  assumes F: "fresh_names past rt" and P: "PoolByName cfg q = Some P"
    and "scale_pools rt cfg nbp es tr w = (started, tr', w')" and "wf_map es" and "names_of tr \<subseteq> past w"
  shows "\<exists>k. 0 \<le> k \<and> k \<le> recorded q tr
    \<and> int (length (started_for q started)) = to_create P (at0 es q) (at0 nbp q) k"
  using assms(3-)
proof (induction es arbitrary: tr w started)
  case Nil
  then show ?case
    by (intro exI[of _ 0]) (simp add: started_for_def at0_def to_create_eq recorded_def)
next
  case (Cons e es)
  obtain name cnt where e: "e = (name, cnt)" by fastforce
  obtain s1 tr1 w1 where h: "scale_pool rt cfg nbp (name, cnt) tr w = (s1, tr1, w1)" by (metis prod_cases3)
  obtain s2 tr2 w2 where t: "scale_pools rt cfg nbp es tr1 w1 = (s2, tr2, w2)" by (metis prod_cases3)
  have r: "started = s1 @ s2" "tr2 = tr'" "w2 = w'" using Cons.prems(1) e h t by auto
  note H = scale_pool_fresh[OF F h Cons.prems(3) P]
  have wf: "wf_map es" using Cons.prems(2) by simp
  obtain k where k: "0 \<le> k" "k \<le> recorded q tr1"
    "int (length (started_for q s2)) = to_create P (at0 es q) (at0 nbp q) k"
    using Cons.IH[OF t[unfolded r] wf H(1)] by blast
  show ?case
  proof (cases "name = q")
    case False
    then have "at0 (e # es) q = at0 es q" by (simp add: e at0_def)
    then show ?thesis using H(2)[OF False] k r by (intro exI[of _ k]) simp
  next
    case True
    then have z: "at0 es q = 0" "at0 (e # es) q = cnt"
      using Cons.prems(2) e by (auto simp: at0_def map_of_eq_None_iff split: option.splits)
        (metis fst_conv imageI map_of_SomeD)
    have "length (started_for q s2) = 0" using k(1,3) by (simp add: z to_create_eq)
    then show ?thesis using H(3)[OF True] r z by auto
  qed
qed

section \<open>The demand is met\<close>


text \<open>Two pending pods, room for three nodes, and a clock that moves on with every name.\<close>

definition fresh_runtime :: "sim up_runtime" where
  "fresh_runtime = sim_runtime\<lparr>rt_now := (\<lambda>w. (max 0 (sim_clock w), w)),
     up_rand := (\<lambda>w. ((0, 0, 0), w\<lparr>sim_clock := max 0 (sim_clock w) + second\<rparr>))\<rparr>"

definition fresh_past :: "sim \<Rightarrow> string set" where
  "fresh_past w = {generateNodeName p u (0, 0, 0) | p u. 0 \<le> u \<and> u \<le> max 0 (sim_clock w) div second}"

lemma fresh_runtime_ok: "fresh_names fresh_past fresh_runtime"
proof -
  have "n \<notin> fresh_past w \<and> insert n (fresh_past w) \<subseteq> fresh_past w'"
    if g: "call_generateNodeName fresh_runtime pool w = (n, w')" for pool w n w'
  proof -
    let ?t = "max 0 (sim_clock w)"
    have c: "n = generateNodeName pool ((?t + second) div second) (0, 0, 0)" "w' = w\<lparr>sim_clock := ?t + second\<rparr>"
      using g by (auto simp: call_generateNodeName_def fresh_runtime_def second_def)
    have d: "(?t + second) div second = ?t div second + 1" "0 \<le> ?t div second"
      by (simp_all add: second_def)
    have "n \<notin> fresh_past w"
    proof
      assume "n \<in> fresh_past w"
      then obtain p u where u: "n = generateNodeName p u (0, 0, 0)" "0 \<le> u" "u \<le> ?t div second"
        by (auto simp: fresh_past_def)
      have "0 \<le> ?t div second + 1" using d(2) by simp
      from gn.gen_inj[OF this u(2), of pool "(0, 0, 0)" p "(0, 0, 0)"] u(1,3) show False
        by (simp add: c(1) d(1))
    qed
    moreover have "fresh_past w \<subseteq> fresh_past w'"
    proof -
      have "max 0 (sim_clock w') div second = ?t div second + 1" using d by (simp add: c(2) second_def)
      then show ?thesis by (fastforce simp: fresh_past_def)
    qed
    moreover have "n \<in> fresh_past w'"
    proof -
      have "max 0 (sim_clock w') = ?t + second" by (simp add: c(2) second_def)
      then show ?thesis using d unfolding fresh_past_def c(1) by (intro CollectI exI[of _ pool] exI[of _ "(?t + second) div second"]) simp
    qed
    ultimately show ?thesis by simp
  qed
  then show ?thesis by (simp add: fresh_names_def fresh_runtime_def sim_runtime_def)
qed

definition fresh_controller :: "sim controller" where
  "fresh_controller = (sample_controller True 0 3)\<lparr>c_rt := fresh_runtime\<rparr>"

definition two_pending :: sim where
  "two_pending = sample_world\<lparr>sim_pending := [sample_pending ''p1'', sample_pending ''p2'']\<rparr>"


end
