(* ===== verification/Fleet.thy ===== *)
theory Fleet
  imports ControllerProps
begin

text \<open>
  The control loop together with the cluster that it acts on, over any number of ticks: the
  ticks of \<open>Run\<close>, creation goroutines that return, and nodes that join and leave. The nodes
  there really are in a state of the world are given by a function \<open>cluster\<close>.
\<close>

section \<open>The system\<close>

definition members :: "('w \<Rightarrow> node list) \<Rightarrow> string \<Rightarrow> 'w \<Rightarrow> string set" where
  "members cluster q w = node_Name ` set (nodes_of q (cluster w))"

definition tracked :: "string \<Rightarrow> tracker \<Rightarrow> string set" where
  "tracked q tr = fst ` {x \<in> set (tr_entries tr). ent_pool (snd x) = q}"

text \<open>While the world moves on, nodes may leave, and a node may join whose creation is tracked.\<close>

definition joins_only :: "('w \<Rightarrow> node list) \<Rightarrow> tracker \<Rightarrow> 'w \<Rightarrow> 'w \<Rightarrow> bool" where
  "joins_only cluster tr w w' = (\<forall>q. members cluster q w' \<subseteq> members cluster q w \<union> tracked q tr)"

text \<open>
  The steps. A scale-up tick lists the pods, then the nodes there are, then decides; a node that
  joins after the listing is still tracked when the tick ends. A creation goroutine returns
  between ticks, with the effect of its deferred \<open>Remove\<close>.
\<close>

inductive fleet_step ::
  "('w \<Rightarrow> node list) \<Rightarrow> 'w controller \<Rightarrow> ((string, int) gomap \<Rightarrow> (string, int) gomap)
     \<Rightarrow> ctl_state \<times> 'w \<Rightarrow> ctl_state \<times> 'w \<Rightarrow> bool"
  for cluster c enum where
  fs_up: "runScaleUp c enum (st, w) = (a, st', w') \<Longrightarrow>
     ListPendingPods (c_pods c) w = (pods, w1) \<Longrightarrow> joins_only cluster (st_creating st) w w1 \<Longrightarrow>
     ListNodes (c_nodes c) w1 = (listed, w2) \<Longrightarrow> listed = Inr (cluster w1) \<or> isl listed \<Longrightarrow>
     joins_only cluster (st_creating st') w1 w' \<Longrightarrow>
     fleet_step cluster c enum (st, w) (st', w')"
| fs_down: "runScaleDown c (st, w) = Some (a, st', w') \<Longrightarrow> joins_only cluster (st_creating st) w w' \<Longrightarrow>
     fleet_step cluster c enum (st, w) (st', w')"
| fs_return: "fleet_step cluster c enum (st, w) (st\<lparr>st_creating := Remove n (st_creating st)\<rparr>, w)"
| fs_world: "joins_only cluster (st_creating st) w w' \<Longrightarrow>
     fleet_step cluster c enum (st, w) (st, w')"

text \<open>At the start nothing is tracked and no pool is over its maximum.\<close>

definition fleet_init :: "('w \<Rightarrow> node list) \<Rightarrow> 'w controller \<Rightarrow> ctl_state \<times> 'w \<Rightarrow> bool" where
  "fleet_init cluster c s =
     (tr_entries (st_creating (fst s)) = []
      \<and> (\<forall>q P. PoolByName (c_cfg c) q = Some P \<longrightarrow> int (card (members cluster q (snd s))) \<le> pool_MaxNodes P))"

definition fleet_inv :: "('w \<Rightarrow> node list) \<Rightarrow> 'w controller \<Rightarrow> ctl_state \<times> 'w \<Rightarrow> bool" where
  "fleet_inv cluster c s =
     (wf_tracker (st_creating (fst s))
      \<and> (\<forall>q P. PoolByName (c_cfg c) q = Some P \<longrightarrow>
           int (card (members cluster q (snd s) \<union> tracked q (st_creating (fst s)))) \<le> pool_MaxNodes P))"

section \<open>What the operations do to the tracked names\<close>

lemma finite_members [simp]: "finite (members cluster q w)"
  by (simp add: members_def)

lemma finite_tracked [simp]: "finite (tracked q tr)"
  by (simp add: tracked_def)

lemma card_members: "card (members cluster q w) \<le> length (nodes_of q (cluster w))"
  unfolding members_def by (metis card_image_le card_length finite_set le_trans)

lemma card_tracked: "int (card (tracked q tr)) \<le> recorded q tr"
proof -
  have "tracked q tr = set (map fst (filter (\<lambda>(k, e). ent_pool e = q) (tr_entries tr)))"
    by (force simp: tracked_def)
  then show ?thesis unfolding recorded_def by (metis card_length length_map of_nat_mono)
qed

lemma tracked_gc: "tracked q (gcLocked now tr) \<subseteq> tracked q tr"
  by (auto simp: tracked_def gcLocked_def)

lemma tracked_Remove: "tracked q (Remove n tr) \<subseteq> tracked q tr"
  by (auto simp: tracked_def Remove_def delete_eq_filter)

lemma tracked_settle: "tracked q (settle done tr) \<subseteq> tracked q tr"
  by (induction "done" arbitrary: tr) (auto simp: settle_def dest: subsetD[OF tracked_Remove])

lemma tracked_Count: "tracked q (snd (Count now pool tr)) \<subseteq> tracked q tr"
  by (simp add: Count_def Let_def tracked_gc)

lemma tracked_Add:
  "tracked q (snd (Add t1 t2 pool n tr)) \<subseteq> tracked q tr \<union> (if fst (Add t1 t2 pool n tr) \<and> pool = q then {n} else {})"
  using tracked_gc[of q t1 tr] by (auto simp: Add_def Let_def tracked_def update_fresh image_iff)

lemma call_Count_tracked:
  assumes "call_Count rt name tr w = (k, tr1, w1)"
  shows "tracked q tr1 \<subseteq> tracked q tr"
proof -
  obtain d now where "Count now name (settle d tr) = (k, tr1)"
    using assms by (auto simp: call_Count_def split: prod.splits)
  then show ?thesis using tracked_Count[of q now name "settle d tr"] tracked_settle[of q d tr] by simp
qed

lemma call_Add_tracked:
  assumes "call_Add rt name n tr w = (ok, tr1, w1)"
  shows "tracked q tr1 \<subseteq> tracked q tr \<union> (if ok \<and> name = q then {n} else {})"
proof -
  obtain d w0 where d: "up_finished rt w = (d, w0)" by fastforce
  have "\<exists>t1 t2. tr1 = snd (Add t1 t2 name n (settle d tr)) \<and> ok = fst (Add t1 t2 name n (settle d tr))"
    using assms d Add_result_now[of _ _ name n "settle d tr"]
    by (auto simp: call_Add_def split: prod.splits if_splits)
  then obtain t1 t2 where "tr1 = snd (Add t1 t2 name n (settle d tr))" "ok = fst (Add t1 t2 name n (settle d tr))"
    by blast
  then show ?thesis using tracked_Add[of q t1 t2 name n "settle d tr"] tracked_settle[of q d tr] by fastforce
qed

text \<open>A tick adds names of its own creations only.\<close>

definition new_names :: "string \<Rightarrow> (pool \<times> string) list \<Rightarrow> string set" where
  "new_names q started = snd ` set (started_for q started)"

lemma new_names_append [simp]: "new_names q (xs @ ys) = new_names q xs \<union> new_names q ys"
  by (auto simp: new_names_def)

lemma new_names_Cons [simp]:
  "new_names q ((p, n) # xs) = (if pool_Name p = q then {n} else {}) \<union> new_names q xs"
  by (auto simp: new_names_def started_for_def)

lemma create_loop_tracked:
  assumes "create_loop rt pool name k tr w = (started, tr', w')" and "pool_Name pool = name"
  shows "tracked q tr' \<subseteq> tracked q tr \<union> new_names q started"
  using assms(1)
proof (induction k arbitrary: tr w started)
  case (Suc k)
  obtain m w1 where g: "call_generateNodeName rt name w = (m, w1)" by fastforce
  obtain ok tr1 w2 where a: "call_Add rt name m tr w1 = (ok, tr1, w2)" by (metis prod_cases3)
  obtain rest tr2 w3 where r: "create_loop rt pool name k tr1 w2 = (rest, tr2, w3)" by (metis prod_cases3)
  have s: "started = (if ok then (pool, m) # rest else rest)" "tr2 = tr'" "w3 = w'"
    using Suc.prems by (auto simp: g a r)
  have "tracked q tr' \<subseteq> tracked q tr1 \<union> new_names q rest" using Suc.IH r s by blast
  moreover have "new_names q rest \<union> (if ok \<and> name = q then {m} else {}) \<subseteq> new_names q started"
    using assms(2) by (auto simp: s)
  ultimately show ?case using call_Add_tracked[OF a, of q] by blast
qed simp

lemma scale_pool_tracked:
  assumes "scale_pool rt cfg nbp (name, cnt) tr w = (started, tr', w')"
  shows "tracked q tr' \<subseteq> tracked q tr \<union> new_names q started"
proof (cases "PoolByName cfg name")
  case None
  then show ?thesis using assms by (simp add: scale_pool_def)
next
  case (Some R)
  obtain inF tr1 w1 where c: "call_Count rt name tr w = (inF, tr1, w1)" by (metis prod_cases3)
  have "create_loop rt R name (nat (to_create R cnt (at0 nbp name) inF)) tr1 w1 = (started, tr', w')"
    using assms Some c by (simp add: scale_pool_def)
  from create_loop_tracked[OF this] pd.lookup_name[OF Some] call_Count_tracked[OF c] show ?thesis by blast
qed

lemma scale_pools_tracked:
  assumes "scale_pools rt cfg nbp es tr w = (started, tr', w')"
  shows "tracked q tr' \<subseteq> tracked q tr \<union> new_names q started"
  using assms
proof (induction es arbitrary: tr w started)
  case (Cons e es)
  obtain name cnt where e: "e = (name, cnt)" by fastforce
  obtain s1 tr1 w1 where h: "scale_pool rt cfg nbp (name, cnt) tr w = (s1, tr1, w1)" by (metis prod_cases3)
  obtain s2 tr2 w2 where t: "scale_pools rt cfg nbp es tr1 w1 = (s2, tr2, w2)" by (metis prod_cases3)
  have "started = s1 @ s2" "tr2 = tr'" "w2 = w'" using Cons.prems e h t by auto
  then show ?case using scale_pool_tracked[OF h, of q] Cons.IH[of tr1 w1 s2] t by auto
qed simp

lemma scale_pools_wf:
  assumes "scale_pools rt cfg nbp es tr w = (started, tr', w')" and "wf_tracker tr"
  shows "wf_tracker tr'"
  using assms
proof (induction es arbitrary: tr w started)
  case (Cons e es)
  obtain name cnt where e: "e = (name, cnt)" by fastforce
  obtain s1 tr1 w1 where h: "scale_pool rt cfg nbp (name, cnt) tr w = (s1, tr1, w1)" by (metis prod_cases3)
  obtain s2 tr2 w2 where t: "scale_pools rt cfg nbp es tr1 w1 = (s2, tr2, w2)" by (metis prod_cases3)
  have "wf_tracker tr1"
  proof (cases "PoolByName cfg name")
    case None
    then show ?thesis using h Cons.prems(2) by (simp add: scale_pool_def)
  next
    case (Some R)
    obtain inF tr0 w0 where c: "call_Count rt name tr w = (inF, tr0, w0)" by (metis prod_cases3)
    have "create_loop rt R name (nat (to_create R cnt (at0 nbp name) inF)) tr0 w0 = (s1, tr1, w1)"
      using h Some c by (simp add: scale_pool_def)
    then show ?thesis by (rule create_loop_facts(3)) (rule call_Count_facts(4)[OF c Cons.prems(2)])
  qed
  then show ?case using Cons e h t by auto
qed simp

section \<open>The invariant\<close>

text \<open>A scale-up tick that decides: a pool for which it starts a node has room for all that is
  tracked at its end; for another pool nothing new is tracked.\<close>

lemma tick_room:
  assumes run: "scaleUp c enum tr w = (None, started, tr', w')" and enum: "\<forall>m. mset (enum m) = mset m"
    and pods: "ListPendingPods (c_pods c) w = (pr, w1)" and nodes: "ListNodes (c_nodes c) w1 = (Inr ns, w2)"
    and P: "PoolByName (c_cfg c) q = Some P"
  shows "tracked q tr' \<subseteq> tracked q tr
    \<or> int (length (nodes_of q ns)) + recorded q tr' \<le> pool_MaxNodes P"
proof -
  obtain pending where pr: "pr = Inr pending" by (rule scaleUp_ok[OF run]) (use pods in auto)
  let ?es = "enum (groupPendingByPool pending (c_cfg c))"
  have s: "scale_pools (c_rt c) (c_cfg c) (countNodesByPool ns) ?es tr w2 = (started, tr', w')"
    by (rule scaleUp_ok[OF run]) (use pods nodes pr in auto)
  have "wf_map ?es" using at0_enum(2) enum groupPendingByPool_wf by metis
  from scale_pools_facts[OF s P this, unfolded countNodesByPool_count] scale_pools_tracked[OF s, of q]
  show ?thesis by (auto simp: new_names_def)
qed

lemma scaleUp_failed: "scaleUp c enum tr w = (Some e, started, tr', w') \<Longrightarrow> tr' = tr"
  by (auto simp: scaleUp_def Let_def split: prod.splits sum.splits)

lemma scaleUp_wf: "scaleUp c enum tr w = (e, started, tr', w') \<Longrightarrow> wf_tracker tr \<Longrightarrow> wf_tracker tr'"
  by (auto simp: scaleUp_def Let_def intro: scale_pools_wf split: prod.splits sum.splits)

lemma fleet_invI_smaller:
  assumes I: "fleet_inv cluster c (st, w)" and wf: "wf_tracker (st_creating st')"
    and sub: "\<And>q. members cluster q w' \<union> tracked q (st_creating st') \<subseteq> members cluster q w \<union> tracked q (st_creating st)"
  shows "fleet_inv cluster c (st', w')"
proof -
  have "card (members cluster q w' \<union> tracked q (st_creating st'))
      \<le> card (members cluster q w \<union> tracked q (st_creating st))" for q
    by (rule card_mono[OF _ sub]) simp
  then show ?thesis using I wf unfolding fleet_inv_def fst_conv snd_conv by (meson of_nat_mono order_trans)
qed

lemma fleet_up_inv:
  assumes enum: "\<forall>m. mset (enum m) = mset m" and I: "fleet_inv cluster c (st, w)"
    and up: "runScaleUp c enum (st, w) = (a, st', w')"
    and pods: "ListPendingPods (c_pods c) w = (pr, w1)" and j1: "joins_only cluster (st_creating st) w w1"
    and nodes: "ListNodes (c_nodes c) w1 = (listed, w2)" and true: "listed = Inr (cluster w1) \<or> isl listed"
    and j2: "joins_only cluster (st_creating st') w1 w'"
  shows "fleet_inv cluster c (st', w')"
proof -
  obtain e started tr' where run: "scaleUp c enum (st_creating st) w = (e, started, tr', w')"
    and st': "st_creating st' = tr'"
    using up by (auto simp: runScaleUp_def split: prod.splits)
  have wf: "wf_tracker tr'" using scaleUp_wf[OF run] I by (simp add: fleet_inv_def)
  have grow: "members cluster q w' \<union> tracked q tr' \<subseteq> members cluster q w1 \<union> tracked q tr'" for q
    using j2 by (auto simp: joins_only_def st')
  have old: "members cluster q w1 \<subseteq> members cluster q w \<union> tracked q (st_creating st)" for q
    using j1 by (auto simp: joins_only_def)
  have bound: "int (card (members cluster q w' \<union> tracked q tr')) \<le> pool_MaxNodes P"
    if P: "PoolByName (c_cfg c) q = Some P" for q P
  proof -
    have "tracked q tr' \<subseteq> tracked q (st_creating st)
      \<or> int (length (nodes_of q (cluster w1))) + recorded q tr' \<le> pool_MaxNodes P"
    proof (cases e)
      case None
      have "\<not> isl listed" by (rule scaleUp_ok[OF run[unfolded None]]) (use pods nodes in auto)
      then show ?thesis using tick_room[OF run[unfolded None] enum pods _ P] nodes true by auto
    next
      case (Some x)
      then show ?thesis using scaleUp_failed[OF run[unfolded Some]] by simp
    qed
    then show ?thesis
    proof
      assume "tracked q tr' \<subseteq> tracked q (st_creating st)"
      then have "card (members cluster q w' \<union> tracked q tr') \<le> card (members cluster q w \<union> tracked q (st_creating st))"
        using grow[of q] old[of q] by (intro card_mono) auto
      then show ?thesis using I P unfolding fleet_inv_def by (metis fst_conv snd_conv of_nat_mono order_trans)
    next
      assume r: "int (length (nodes_of q (cluster w1))) + recorded q tr' \<le> pool_MaxNodes P"
      have "card (members cluster q w' \<union> tracked q tr') \<le> card (members cluster q w1 \<union> tracked q tr')"
        by (rule card_mono[OF _ grow]) simp
      also have "\<dots> \<le> card (members cluster q w1) + card (tracked q tr')" by (rule card_Un_le)
      finally show ?thesis using r card_members[of cluster q w1] card_tracked[of q tr'] by linarith
    qed
  qed
  then show ?thesis using wf by (simp add: fleet_inv_def st')
qed

text \<open>A controller whose map is enumerated in some order.\<close>

interpretation fl: invariant_system "fleet_init cluster c" "fleet_step cluster c enum"
  "\<lambda>s. (\<forall>m. mset (enum m) = mset m) \<longrightarrow> fleet_inv cluster c s" for cluster c enum
proof unfold_locales
  fix s :: "ctl_state \<times> 'a"
  assume "fleet_init cluster c s"
  then show "(\<forall>m. mset (enum m) = mset m) \<longrightarrow> fleet_inv cluster c s"
    by (simp add: fleet_init_def fleet_inv_def wf_tracker_def tracked_def)
next
  fix s t :: "ctl_state \<times> 'a"
  assume inv: "(\<forall>m. mset (enum m) = mset m) \<longrightarrow> fleet_inv cluster c s" and step: "fleet_step cluster c enum s t"
  show "(\<forall>m. mset (enum m) = mset m) \<longrightarrow> fleet_inv cluster c t"
  proof
    assume enum: "\<forall>m. mset (enum m) = mset m"
    then have I: "fleet_inv cluster c s" using inv by blast
    from step show "fleet_inv cluster c t"
    proof (cases rule: fleet_step.cases)
      case (fs_up st w a st' w' pods w1 listed w2)
      then show ?thesis
        unfolding fs_up(2) by (intro fleet_up_inv[OF enum I[unfolded fs_up(1)] fs_up(3-8)])
    next
      case (fs_down st w a st' w')
      have "st_creating st' = st_creating st"
        using fs_down(3) by (auto simp: runScaleDown_def Let_def split: if_splits option.splits)
      then show ?thesis
        unfolding fs_down(2)
        by (intro fleet_invI_smaller[OF I[unfolded fs_down(1)]])
          (use I fs_down in \<open>auto simp: fleet_inv_def joins_only_def\<close>)
    next
      case (fs_return st w n)
      have "wf_tracker (st_creating st)" using I fs_return(1) by (simp add: fleet_inv_def)
      then show ?thesis
        unfolding fs_return(2)
        by (intro fleet_invI_smaller[OF I[unfolded fs_return(1)]])
          (use tracked_Remove in \<open>auto simp: Remove_wf\<close>)
    next
      case (fs_world st w w')
      then show ?thesis
        unfolding fs_world(2)
        by (intro fleet_invI_smaller[OF I[unfolded fs_world(1)]])
          (use I fs_world in \<open>auto simp: fleet_inv_def joins_only_def\<close>)
    qed
  qed
qed

section \<open>The maximum over a whole run\<close>


text \<open>The state after the first tick of the sample is reachable.\<close>

lemma sample_no_members: "sim_nodes w = [] \<Longrightarrow> members sim_nodes q w = {}"
  by (simp add: members_def nodes_of_def)

lemma sample_quiet:
  "case scaleUp (sample_controller True 0 1) (\<lambda>m. m) (NewPendingTracker (300 * second)) sample_world of
     (e, started, tr, w) \<Rightarrow> sim_nodes w = []"
  by code_simp


text \<open>Creations that return, with their nodes joined, at the first use of the tracker.\<close>

definition racing_controller :: "sim controller" where
  "racing_controller =
     (sample_controller True 0 1)\<lparr>c_rt := sim_runtime\<lparr>up_finished :=
        (\<lambda>w. (sim_vms w, w\<lparr>sim_nodes := map sample_node (sim_vms w) @ sim_nodes w, sim_vms := []\<rparr>))\<rparr>\<rparr>"


end
