(* ===== verification/Runs.thy ===== *)
theory Runs
  imports Fleet
begin

text \<open>
  The runs of the control loop as paths of the system of \<open>Fleet\<close>. \<open>Run\<close> is a function of the
  events it receives and of the world; the system is a step relation. What the system assumes of
  the nodes that join is here a condition on the run, evaluated tick after tick.
\<close>

section \<open>The ticks of a run as steps\<close>

text \<open>A tick during which nodes join only while tracked and the listing is of the nodes there are.\<close>

definition up_joins ::
  "('w \<Rightarrow> node list) \<Rightarrow> 'w controller \<Rightarrow> ((string, int) gomap \<Rightarrow> (string, int) gomap)
     \<Rightarrow> ctl_state \<times> 'w \<Rightarrow> bool" where
  "up_joins cluster c enum s =
     (case s of (st, w) \<Rightarrow>
      case ListPendingPods (c_pods c) w of (pods, w1) \<Rightarrow>
      case ListNodes (c_nodes c) w1 of (listed, w2) \<Rightarrow>
      case runScaleUp c enum (st, w) of (a, st', w') \<Rightarrow>
        joins_only cluster (st_creating st) w w1 \<and> (listed = Inr (cluster w1) \<or> isl listed)
        \<and> joins_only cluster (st_creating st') w1 w')"

fun run_joins ::
  "('w \<Rightarrow> node list) \<Rightarrow> 'w controller \<Rightarrow> ((string, int) gomap \<Rightarrow> (string, int) gomap)
     \<Rightarrow> event list \<Rightarrow> ctl_state \<times> 'w \<Rightarrow> bool" where
  "run_joins cluster c enum [] s = True"
| "run_joins cluster c enum (CtxDone # evs) s = True"
| "run_joins cluster c enum (UpTick # evs) s =
     (up_joins cluster c enum s \<and> run_joins cluster c enum evs (snd (runScaleUp c enum s)))"
| "run_joins cluster c enum (DownTick # evs) s =
     (case runScaleDown c s of
        None \<Rightarrow> True
      | Some (a, s1) \<Rightarrow>
          joins_only cluster (st_creating (fst s)) (snd s) (snd s1) \<and> run_joins cluster c enum evs s1)"

lemma Run_eq_loop: "Run c enum evs s = run_loop c enum (UpTick # evs) s"
  by (simp add: Run_def)

lemma up_step:
  assumes "up_joins cluster c enum s" and "runScaleUp c enum s = (a, s1)"
  shows "fleet_step cluster c enum s s1"
proof -
  obtain st w st' w' where s: "s = (st, w)" "s1 = (st', w')" by (cases s; cases s1) auto
  obtain pods w1 where p: "ListPendingPods (c_pods c) w = (pods, w1)" by fastforce
  obtain listed w2 where l: "ListNodes (c_nodes c) w1 = (listed, w2)" by fastforce
  show ?thesis
    unfolding s by (rule fs_up[OF assms(2)[unfolded s] p _ l]) (use assms p l s in \<open>auto simp: up_joins_def\<close>)
qed

lemma run_loop_reachable:
  assumes "reachable (fleet_init cluster c) (fleet_step cluster c enum) s"
    and "run_joins cluster c enum evs s" and "run_loop c enum evs s = Some (as, s')"
  shows "reachable (fleet_init cluster c) (fleet_step cluster c enum) s'"
  using assms
proof (induction evs arbitrary: s as)
  case Nil
  then show ?case by simp
next
  case (Cons e evs)
  show ?case
  proof (cases e)
    case CtxDone
    then show ?thesis using Cons.prems by auto
  next
    case UpTick
    obtain a s1 where u: "runScaleUp c enum s = (a, s1)" by (metis prod.exhaust)
    obtain as' where l: "run_loop c enum evs s1 = Some (as', s')"
      using Cons.prems(3) UpTick u by (auto split: option.splits)
    have "fleet_step cluster c enum s s1" by (rule up_step[OF _ u]) (use Cons.prems(2) UpTick in simp)
    then show ?thesis using Cons.IH[OF reach_step[OF Cons.prems(1)] _ l] Cons.prems(2) UpTick u by simp
  next
    case DownTick
    obtain a s1 where d: "runScaleDown c s = Some (a, s1)"
      using Cons.prems(3) DownTick by (auto split: option.splits)
    obtain as' where l: "run_loop c enum evs s1 = Some (as', s')"
      using Cons.prems(3) DownTick d by (auto split: option.splits)
    have "fleet_step cluster c enum s s1"
      using Cons.prems(2) DownTick d fs_down[of c "fst s" "snd s" a "fst s1" "snd s1"] by simp
    then show ?thesis using Cons.IH[OF reach_step[OF Cons.prems(1)] _ l] Cons.prems(2) DownTick d by simp
  qed
qed

section \<open>The maximum over a run of the program's loop\<close>


subsection \<open>A run in which the node joins\<close>

text \<open>The conditions on a run are executable.\<close>

lemma joins_only_code [code]:
  "joins_only cluster tr w w' =
     list_all (\<lambda>n. case map_of (node_Labels n) ''pool'' of None \<Rightarrow> True
       | Some q \<Rightarrow> node_Name n \<in> members cluster q w \<union> tracked q tr) (cluster w')"
proof -
  have "members cluster q w' \<subseteq> X \<longleftrightarrow>
      (\<forall>n \<in> set (cluster w'). map_of (node_Labels n) ''pool'' = Some q \<longrightarrow> node_Name n \<in> X)" for q X
    by (auto simp: members_def nodes_of_def)
  then show ?thesis by (auto simp: joins_only_def list_all_iff split: option.splits)
qed

text \<open>The node of the first creation is there when the pods are listed the next time.\<close>

definition joining_lister :: "sim pod_lister" where
  "joining_lister = sim_pod_lister\<lparr>ListPendingPods := (\<lambda>w. (Inr (sim_pending w),
     if sim_rand w = 0 then w else w\<lparr>sim_nodes := [sample_node ''app-3600-000000'']\<rparr>))\<rparr>"

definition joining_new :: "sim controller \<times> ctl_state" where
  "joining_new =
     New (sample_config 0 1) joining_lister sim_node_lister (sim_mutator True) sim_kam sim_errors sim_runtime
       \<lparr>opt_ScaleUpEvery = 0, opt_ScaleDownEvery = 0, opt_NodeReadyTimeout = 0, opt_IdleThreshold = 0,
        opt_DrainTimeout = 0\<rparr>"

lemma joining_run:
  "case joining_new of (c, st0) \<Rightarrow>
     (case Run c (\<lambda>m. m) [UpTick, CtxDone] (st0, sample_world) of None \<Rightarrow> False
      | Some (as, st, w) \<Rightarrow> length as = 3 \<and> map node_Name (sim_nodes w) = [''app-3600-000000'']
          \<and> recorded ''app'' (st_creating st) = 1)"
  by code_simp

lemma joining_joins:
  "case joining_new of (c, st0) \<Rightarrow> run_joins sim_nodes c (\<lambda>m. m) [UpTick, UpTick, CtxDone] (st0, sample_world)"
  by code_simp

lemma joining_loop:
  assumes new: "joining_new = (c, st0)"
  obtains as st w where "Run c (\<lambda>m. m) [UpTick, CtxDone] (st0, sample_world) = Some (as, st, w)"
    "run_joins sim_nodes c (\<lambda>m. m) [UpTick, UpTick, CtxDone] (st0, sample_world)"
    "map node_Name (sim_nodes w) = [''app-3600-000000'']" "recorded ''app'' (st_creating st) = 1"
proof -
  note r = joining_run[unfolded new prod.case] and j = joining_joins[unfolded new prod.case]
  show thesis
  proof (cases "Run c (\<lambda>m. m) [UpTick, CtxDone] (st0, sample_world)")
    case None
    then show ?thesis using r by simp
  next
    case (Some x)
    then show ?thesis using r that[OF _ j, of "fst x" "fst (snd x)" "snd (snd x)"] by (simp add: split_beta)
  qed
qed


end
