(* ===== verification/Traces.thy ===== *)
theory Traces
  imports ControllerProps Kubeclient
begin

text \<open>
  What the control loop does to the cluster and the cloud, call by call. The ticks run over the
  Kubernetes client of \<open>Kubeclient\<close>; every call that leaves the loop is an event with its
  outcome in a log. The traces that a tick may have are specified here, one per outcome of a
  node and of a tick, and the code is shown to have no others.
\<close>

section \<open>Calls\<close>

datatype call_event =
    PodsListed string "goerr + pod list"
  | NodesListed "goerr + node list"
  | NodePatched string string string "goerr option"
  | PodEvicted string string "goerr option"
  | NodeDeleted string "goerr option"
  | ServerFound string "goerr + server"
  | TerminationSent string "goerr + string"
  | TerminationAwaited string "goerr option"

definition appends :: "('w \<Rightarrow> call_event list) \<Rightarrow> ('w \<Rightarrow> 'r \<times> 'w) \<Rightarrow> ('r \<Rightarrow> call_event) \<Rightarrow> bool" where
  "appends log call ev = (\<forall>w r w'. call w = (r, w') \<longrightarrow> log w' = log w @ [ev r])"

definition silent :: "('w \<Rightarrow> call_event list) \<Rightarrow> ('w \<Rightarrow> 'r \<times> 'w) \<Rightarrow> bool" where
  "silent log call = (\<forall>w r w'. call w = (r, w') \<longrightarrow> log w' = log w)"

text \<open>The log of a controller whose Kubernetes calls go to client-go. The goroutines of creations, whose
  returns show at \<open>up_finished\<close>, make none of these calls.\<close>

definition logs_calls :: "('w \<Rightarrow> call_event list) \<Rightarrow> 'w kube_api \<Rightarrow> 'w controller \<Rightarrow> bool" where
  "logs_calls log K c =
     ((\<forall>sel. appends log (api_ListPods K [] sel) (PodsListed sel))
      \<and> appends log (api_ListNodes K) NodesListed
      \<and> (\<forall>n ty p. appends log (api_PatchNode K n ty p) (NodePatched n ty p))
      \<and> (\<forall>ns nm. appends log (api_EvictV1 K ns (nm, ns)) (PodEvicted ns nm))
      \<and> (\<forall>n. appends log (api_DeleteNode K n) (NodeDeleted n))
      \<and> (\<forall>n. appends log (kam_FindServerByName (c_kam c) n) (ServerFound n))
      \<and> (\<forall>i. appends log (kam_TerminateServer (c_kam c) i) (TerminationSent i))
      \<and> (\<forall>i t w r w'. kam_WaitTerminate (c_kam c) i t w = Some (r, w') \<longrightarrow> log w' = log w @ [TerminationAwaited i r])
      \<and> silent log (rt_now (c_rt c)) \<and> (\<forall>d. silent log (rt_wait (c_rt c) d))
      \<and> silent log (up_rand (c_rt c)) \<and> silent log (up_finished (c_rt c)))"

definition over_client :: "'w kube_api \<Rightarrow> 'w controller \<Rightarrow> bool" where
  "over_client K c =
     (c_pods c = Client_as_PodLister K \<and> c_nodes c = Client_as_NodeLister K \<and> c_mut c = Client_as_NodeMutator K)"

section \<open>The traces of a drain\<close>

definition on_node :: "string \<Rightarrow> string" where
  "on_node n = ''spec.nodeName='' @ n"

text \<open>The outcomes of an eviction after which the round goes on, as the drain sees them through the
  client's wrapping.\<close>

definition tolerated :: "api_errors \<Rightarrow> pod \<Rightarrow> goerr option \<Rightarrow> bool" where
  "tolerated ae p r =
     (case r of None \<Rightarrow> True
      | Some e \<Rightarrow>
          (let err = Wrapf ''evict pod %s/%s: %w'' [AStr (pod_Namespace p), AStr (pod_Name p)] e
           in IsTooManyRequests ae err \<or> IsNotFound ae err))"

text \<open>Evictions in the order of the pods, up to the first that is not tolerated.\<close>

inductive evictions :: "api_errors \<Rightarrow> pod list \<Rightarrow> call_event list \<Rightarrow> bool \<Rightarrow> bool" for ae where
  ev_done: "evictions ae [] [] True"
| ev_next: "tolerated ae p r \<Longrightarrow> evictions ae ps es b \<Longrightarrow>
     evictions ae (p # ps) (PodEvicted (pod_Namespace p) (pod_Name p) r # es) b"
| ev_fail: "\<not> tolerated ae p r \<Longrightarrow>
     evictions ae (p # ps) [PodEvicted (pod_Namespace p) (pod_Name p) r] False"

text \<open>Rounds of a listing and its evictions. The drain succeeds on a listing with nothing to evict;
  it fails on a call, on the deadline and when the context ends.\<close>

inductive drain_rounds :: "api_errors \<Rightarrow> string \<Rightarrow> call_event list \<Rightarrow> bool \<Rightarrow> bool" for ae n where
  dr_stop: "drain_rounds ae n [] False"
| dr_list: "drain_rounds ae n [PodsListed (on_node n) (Inl e)] False"
| dr_done: "filter evictable ps = [] \<Longrightarrow> drain_rounds ae n [PodsListed (on_node n) (Inr ps)] True"
| dr_fail: "filter evictable ps \<noteq> [] \<Longrightarrow> evictions ae (filter evictable ps) es False \<Longrightarrow>
     drain_rounds ae n (PodsListed (on_node n) (Inr ps) # es) False"
| dr_next: "filter evictable ps \<noteq> [] \<Longrightarrow> evictions ae (filter evictable ps) es True \<Longrightarrow>
     drain_rounds ae n rest b \<Longrightarrow> drain_rounds ae n (PodsListed (on_node n) (Inr ps) # es @ rest) b"

text \<open>First the node is cordoned.\<close>

definition cordoned :: "string \<Rightarrow> goerr option \<Rightarrow> call_event" where
  "cordoned n r = NodePatched n ''application/strategic-merge-patch+json'' cordon_patch r"

inductive drain_trace :: "api_errors \<Rightarrow> string \<Rightarrow> call_event list \<Rightarrow> bool \<Rightarrow> bool" for ae n where
  dt_refused: "drain_trace ae n [cordoned n (Some e)] False"
| dt_drain: "drain_rounds ae n es b \<Longrightarrow> drain_trace ae n (cordoned n None # es) b"

section \<open>The traces of a node\<close>

text \<open>The server is looked up, terminated under the id that was found, and awaited; then the node
  object is deleted, whatever the wait gave. A server that is absent is as good as terminated.\<close>

inductive termination_trace :: "string \<Rightarrow> call_event list \<Rightarrow> bool \<Rightarrow> bool" for n where
  tt_absent: "is_ErrServerNotFound e \<Longrightarrow> termination_trace n [ServerFound n (Inl e), NodeDeleted n r] (r = None)"
| tt_lookup: "\<not> is_ErrServerNotFound e \<Longrightarrow> termination_trace n [ServerFound n (Inl e)] False"
| tt_refused: "termination_trace n [ServerFound n (Inr srv), TerminationSent (srv_ID srv) (Inl e)] False"
| tt_done: "termination_trace n [ServerFound n (Inr srv), TerminationSent (srv_ID srv) (Inr cmd),
     TerminationAwaited cmd a, NodeDeleted n r] (r = None)"

definition idle_listing :: "pod list \<Rightarrow> bool" where
  "idle_listing ps = (\<forall>p \<in> set ps. isDaemonSetPod p \<or> isMirrorPod p \<or> finished_pod p)"

inductive node_trace :: "api_errors \<Rightarrow> string \<Rightarrow> down_outcome \<Rightarrow> call_event list \<Rightarrow> bool" for ae n where
  nt_no_pool: "node_trace ae n NoPool []"
| nt_minimum: "node_trace ae n AtMinimum []"
| nt_young: "node_trace ae n TooYoung []"
| nt_unknown: "node_trace ae n (IdleCheckFailed err) [PodsListed (on_node n) (Inl e)]"
| nt_busy: "\<not> idle_listing ps \<Longrightarrow> node_trace ae n Busy [PodsListed (on_node n) (Inr ps)]"
| nt_drain: "idle_listing ps \<Longrightarrow> drain_trace ae n ds False \<Longrightarrow>
     node_trace ae n (DrainFailed err) (PodsListed (on_node n) (Inr ps) # ds)"
| nt_terminate: "idle_listing ps \<Longrightarrow> drain_trace ae n ds True \<Longrightarrow> termination_trace n ts False \<Longrightarrow>
     node_trace ae n (TerminateFailed err) (PodsListed (on_node n) (Inr ps) # ds @ ts)"
| nt_down: "idle_listing ps \<Longrightarrow> drain_trace ae n ds True \<Longrightarrow> termination_trace n ts True \<Longrightarrow>
     node_trace ae n ScaledDown (PodsListed (on_node n) (Inr ps) # ds @ ts)"

inductive_simps node_trace_simps [simp]:
  "node_trace ae n NoPool es" "node_trace ae n AtMinimum es" "node_trace ae n TooYoung es"
  "node_trace ae n Busy es" "node_trace ae n (IdleCheckFailed err) es"

inductive_cases node_trace_downE: "node_trace ae n ScaledDown es"

section \<open>The traces of a tick\<close>

text \<open>What a scale-up tick may start, having seen the pending pods \<open>ps\<close> and the nodes \<open>ns\<close>.\<close>

definition called_for :: "config \<Rightarrow> pod list \<Rightarrow> node list \<Rightarrow> (pool \<times> string) list \<Rightarrow> bool" where
  "called_for cfg ps ns started =
     (list_all (\<lambda>(p, n). PoolByName cfg (pool_Name p) = Some p \<and> prefix (pool_Name p @ ''-'') n) started
      \<and> list_all (\<lambda>(P, n). int (length (started_for (pool_Name P) started))
            \<le> min (int (length (pods_of cfg (pool_Name P) ps)))
                (pool_MaxNodes P - int (length (nodes_of (pool_Name P) ns)))) started)"

text \<open>A scale-up tick reads twice and leaves everything else to the goroutines; a scale-down tick lists
  the nodes and takes them one after the other.\<close>

inductive action_trace :: "'w controller \<Rightarrow> action \<Rightarrow> call_event list \<Rightarrow> bool" for c where
  at_no_pods: "action_trace c (RanScaleUp (Some err) []) [PodsListed ''status.phase=Pending'' (Inl e)]"
| at_no_nodes: "action_trace c (RanScaleUp (Some err) [])
     [PodsListed ''status.phase=Pending'' (Inr ps), NodesListed (Inl e)]"
| at_up: "called_for (c_cfg c) ps ns started \<Longrightarrow> action_trace c (RanScaleUp None started)
     [PodsListed ''status.phase=Pending'' (Inr ps), NodesListed (Inr ns)]"
| at_unlisted: "action_trace c (RanScaleDown (Some err) []) [NodesListed (Inl e)]"
| at_down: "list_all2 (\<lambda>(nd, r) es. node_trace (c_ae c) (node_Name nd) r es) rs css \<Longrightarrow>
     action_trace c (RanScaleDown None rs) (NodesListed (Inr (map fst rs)) # concat css)"
| at_skipped: "action_trace c SkippedScaleDown []"
| at_end: "action_trace c ShutDown []"

inductive_simps action_trace_simps [simp]: "action_trace c SkippedScaleDown es" "action_trace c ShutDown es"

section \<open>The operations have these traces\<close>

lemma appendsD: "appends log call ev \<Longrightarrow> call w = (r, w') \<Longrightarrow> log w' = log w @ [ev r]"
  by (simp add: appends_def)

lemma silentD: "silent log call \<Longrightarrow> call w = (r, w') \<Longrightarrow> log w' = log w"
  by (simp add: silent_def)

lemma rt_logs:
  "logs_calls log K c \<Longrightarrow> rt_now (c_rt c) w = (t, w') \<Longrightarrow> log w' = log w"
  "logs_calls log K c \<Longrightarrow> rt_wait (c_rt c) d w = (e, w') \<Longrightarrow> log w' = log w"
  "logs_calls log K c \<Longrightarrow> up_rand (c_rt c) w = (b, w') \<Longrightarrow> log w' = log w"
  "logs_calls log K c \<Longrightarrow> up_finished (c_rt c) w = (ns, w') \<Longrightarrow> log w' = log w"
  unfolding logs_calls_def by (blast intro: silentD)+

lemma kam_logs:
  "logs_calls log K c \<Longrightarrow> kam_FindServerByName (c_kam c) n w = (f, w') \<Longrightarrow> log w' = log w @ [ServerFound n f]"
  "logs_calls log K c \<Longrightarrow> kam_TerminateServer (c_kam c) i w = (t, w') \<Longrightarrow> log w' = log w @ [TerminationSent i t]"
  "logs_calls log K c \<Longrightarrow> kam_WaitTerminate (c_kam c) i d w = Some (r, w') \<Longrightarrow> log w' = log w @ [TerminationAwaited i r]"
  unfolding logs_calls_def by (blast intro: appendsD)+

lemma list_logs:
  assumes "logs_calls log K c" and "Client_ListPodsOnNode K n w = (r, w')"
  shows "\<exists>r0. log w' = log w @ [PodsListed (on_node n) r0]
    \<and> (case r of Inl e \<Rightarrow> isl r0 | Inr ps \<Rightarrow> r0 = Inr ps)"
proof -
  obtain r0 w0 where a: "api_ListPods K [] (on_node n) w = (r0, w0)" by fastforce
  have "appends log (api_ListPods K [] (on_node n)) (PodsListed (on_node n))"
    using assms(1) by (simp add: logs_calls_def)
  from appendsD[OF this a] show ?thesis
    using assms(2) a by (auto simp: Client_ListPodsOnNode_def on_node_def split: sum.splits)
qed

lemma cordon_logs:
  assumes "logs_calls log K c" and "Client_Cordon K n w = (r, w')"
  shows "\<exists>r0. log w' = log w @ [cordoned n r0] \<and> (r = None \<longleftrightarrow> r0 = None)"
proof -
  obtain r0 w0 where a: "api_PatchNode K n ''application/strategic-merge-patch+json'' cordon_patch w = (r0, w0)"
    by fastforce
  have "appends log (api_PatchNode K n ty p) (NodePatched n ty p)" for ty p
    using assms(1) by (simp add: logs_calls_def)
  from appendsD[OF this a] show ?thesis
    using assms(2) a by (auto simp: Client_Cordon_def cordoned_def split: option.splits)
qed

lemma evict_logs:
  assumes "logs_calls log K c" and "Client_Evict K p w = (r, w')"
  shows "\<exists>r0. log w' = log w @ [PodEvicted (pod_Namespace p) (pod_Name p) r0]
    \<and> r = map_option (Wrapf ''evict pod %s/%s: %w'' [AStr (pod_Namespace p), AStr (pod_Name p)]) r0"
proof -
  obtain r0 w0 where a: "api_EvictV1 K (pod_Namespace p) (pod_Name p, pod_Namespace p) w = (r0, w0)" by fastforce
  have "appends log (api_EvictV1 K ns (nm, ns)) (PodEvicted ns nm)" for ns nm
    using assms(1) by (simp add: logs_calls_def)
  from appendsD[OF this a] show ?thesis
    using assms(2) a by (auto simp: Client_Evict_def split: option.splits)
qed

lemma delete_logs:
  assumes "logs_calls log K c" and "Client_Delete K n w = (r, w')"
  shows "\<exists>r0. log w' = log w @ [NodeDeleted n r0] \<and> (r = None \<longleftrightarrow> r0 = None)"
proof -
  obtain r0 w0 where a: "api_DeleteNode K n w = (r0, w0)" by fastforce
  have "appends log (api_DeleteNode K n) (NodeDeleted n)" using assms(1) by (simp add: logs_calls_def)
  from appendsD[OF this a] show ?thesis
    using assms(2) a by (auto simp: Client_Delete_def split: option.splits)
qed

lemma over_client_sel:
  assumes "over_client K c"
  shows "ListPodsOnNode (c_pods c) = Client_ListPodsOnNode K" "ListNodes (c_nodes c) = Client_ListNodes K"
    "Cordon (c_mut c) = Client_Cordon K" "Evict (c_mut c) = Client_Evict K" "Delete (c_mut c) = Client_Delete K"
  using assms by (simp_all add: over_client_def Client_as_PodLister_def Client_as_NodeLister_def Client_as_NodeMutator_def)

subsection \<open>The drain\<close>

text \<open>The calls of whole rounds, after which the drain goes on.\<close>

definition drain_prefix :: "api_errors \<Rightarrow> string \<Rightarrow> call_event list \<Rightarrow> bool" where
  "drain_prefix ae n es = (\<forall>rest b. drain_rounds ae n rest b \<longrightarrow> drain_rounds ae n (es @ rest) b)"

lemma drain_prefix_Nil [simp]: "drain_prefix ae n []"
  by (simp add: drain_prefix_def)

lemma drain_prefix_append: "drain_prefix ae n es \<Longrightarrow> drain_prefix ae n es' \<Longrightarrow> drain_prefix ae n (es @ es')"
  by (simp add: drain_prefix_def)

lemma drain_prefix_then: "drain_prefix ae n es \<Longrightarrow> drain_rounds ae n rest b \<Longrightarrow> drain_rounds ae n (es @ rest) b"
  by (simp add: drain_prefix_def)

lemma drain_prefix_round:
  "filter evictable ps \<noteq> [] \<Longrightarrow> evictions ae (filter evictable ps) es True \<Longrightarrow>
     drain_prefix ae n (PodsListed (on_node n) (Inr ps) # es)"
  using dr_next by (fastforce simp: drain_prefix_def)

lemma evict_pods_log:
  assumes "logs_calls log K c" and mut: "Evict mut = Client_Evict K"
    and "evict_pods ae mut ps b w = (r, w')"
  shows "\<exists>es. log w' = log w @ es \<and> evictions ae ps es (\<not> isl r)"
  using assms(3)
proof (induction ps arbitrary: b w)
  case Nil
  then show ?case by (auto intro: evictions.intros)
next
  case (Cons p ps)
  obtain e w1 where e: "Evict mut p w = (e, w1)" by fastforce
  have "Client_Evict K p w = (e, w1)" using e by (simp add: mut)
  from evict_logs[OF assms(1) this] obtain r0 where l: "log w1 = log w @ [PodEvicted (pod_Namespace p) (pod_Name p) r0]"
    and r0: "e = map_option (Wrapf ''evict pod %s/%s: %w'' [AStr (pod_Namespace p), AStr (pod_Name p)]) r0"
    by blast
  show ?case
  proof (cases "tolerated ae p r0")
    case True
    then obtain b' where "evict_pods ae mut ps b' w1 = (r, w')"
      using Cons.prems e r0 by (auto simp: tolerated_def Let_def split: option.splits if_splits)
    from Cons.IH[OF this] obtain es where "log w' = log w1 @ es" and "evictions ae ps es (\<not> isl r)" by blast
    with l True show ?thesis by (auto intro: ev_next)
  next
    case False
    then have "w' = w1 \<and> isl r"
      using Cons.prems e r0 by (auto simp: tolerated_def Let_def split: option.splits)
    with l False show ?thesis by (auto intro: ev_fail)
  qed
qed

lemma drain_round_log:
  assumes L: "logs_calls log K c"
    and mut: "Evict mut = Client_Evict K" and pods: "ListPodsOnNode pods = Client_ListPodsOnNode K"
    and run: "drain_round (c_rt c) ae mut pods n deadline w = (r, w')"
  shows "\<exists>es. log w' = log w @ es
    \<and> (case r of Inl e \<Rightarrow> drain_rounds ae n es (e = None)
       | Inr _ \<Rightarrow> drain_prefix ae n es)"
proof -
  obtain now w1 where t: "rt_now (c_rt c) w = (now, w1)" by fastforce
  note l1 = rt_logs(1)[OF L t]
  show ?thesis
  proof (cases "now > deadline")
    case True
    then show ?thesis using run t l1 by (auto simp: drain_round_def filterEvictable_eq intro: dr_stop)
  next
    case time: False
    obtain l w2 where ls: "ListPodsOnNode pods n w1 = (l, w2)" by fastforce
    then have "Client_ListPodsOnNode K n w1 = (l, w2)" by (simp add: pods)
    from list_logs[OF L this] obtain r0 where l2: "log w2 = log w1 @ [PodsListed (on_node n) r0]"
      and r0: "case l of Inl e \<Rightarrow> isl r0 | Inr ps \<Rightarrow> r0 = Inr ps" by blast
    show ?thesis
    proof (cases l)
      case (Inl e)
      with r0 obtain e0 where "r0 = Inl e0" by (cases r0) auto
      with Inl show ?thesis using run t time ls l1 l2 by (auto simp: drain_round_def filterEvictable_eq intro: dr_list)
    next
      case (Inr ps)
      with r0 have r0: "r0 = Inr ps" by simp
      show ?thesis
      proof (cases "filter evictable ps = []")
        case True
        with Inr show ?thesis using run t time ls l1 l2 r0 by (auto simp: drain_round_def filterEvictable_eq intro: dr_done)
      next
        case ne: False
        obtain b w3 where ev: "evict_pods ae mut (filter evictable ps) False w2 = (b, w3)" by fastforce
        from evict_pods_log[OF L mut ev] obtain es where l3: "log w3 = log w2 @ es"
          and es: "evictions ae (filter evictable ps) es (\<not> isl b)" by blast
        show ?thesis
        proof (cases b)
          case (Inl e)
          with \<open>l = Inr ps\<close> show ?thesis using run t time ls ne ev l1 l2 l3 r0 es
            by (auto simp: drain_round_def filterEvictable_eq intro: dr_fail)
        next
          case (Inr blocked)
          obtain x w4 where wt: "rt_wait (c_rt c) (backoff blocked) w3 = (x, w4)" by fastforce
          have "evictions ae (filter evictable ps) es True" using es Inr by simp
          from drain_prefix_round[OF ne this, of n] have pre: "drain_prefix ae n (PodsListed (on_node n) (Inr ps) # es)" .
          from drain_prefix_then[OF pre dr_stop] have "drain_rounds ae n (PodsListed (on_node n) (Inr ps) # es) False" by simp
          with Inr \<open>l = Inr ps\<close> show ?thesis
            using run t time ls ne ev wt l1 l2 l3 r0 rt_logs(2)[OF L wt] pre
            by (cases x) (auto simp: drain_round_def filterEvictable_eq)
        qed
      qed
    qed
  qed
qed

lemma drainNode_log:
  assumes L: "logs_calls log K c" and over: "over_client K c"
    and run: "drainNode (c_rt c) ae (c_mut c) (c_pods c) n timeout w = Some (r, w')"
  shows "\<exists>ds. log w' = log w @ ds \<and> drain_trace ae n ds (r = None)"
proof -
  note sel = over_client_sel[OF over]
  obtain e w1 where c: "Cordon (c_mut c) n w = (e, w1)" by fastforce
  then have "Client_Cordon K n w = (e, w1)" by (simp add: sel)
  from cordon_logs[OF L this] obtain r0 where l1: "log w1 = log w @ [cordoned n r0]"
    and r0: "e = None \<longleftrightarrow> r0 = None" by blast
  show ?thesis
  proof (cases e)
    case (Some err)
    with r0 obtain e0 where "r0 = Some e0" by (cases r0) auto
    with Some show ?thesis using run c l1 by (auto simp: drainNode_def intro: dt_refused)
  next
    case None
    obtain t w2 where t: "rt_now (c_rt c) w1 = (t, w2)" by fastforce
    let ?round = "drain_round (c_rt c) ae (c_mut c) (c_pods c) n (t + timeout)"
    let ?I = "\<lambda>v. \<exists>es. log v = log w2 @ es \<and> drain_prefix ae n es"
    have ret: "poll ?round w2 = Some (r, w')"
      using run c None t by (simp add: drainNode_def drain_loop_def)
    have keep: "?I v'" if I: "?I v" and s: "?round v = (Inr (), v')" for v v'
    proof -
      from drain_round_log[OF L sel(4) sel(1) s] obtain es' where "log v' = log v @ es'"
        "drain_prefix ae n es'" by auto
      moreover from I obtain es where "log v = log w2 @ es" "drain_prefix ae n es" by blast
      ultimately show ?thesis using drain_prefix_append by (metis append.assoc)
    qed
    have start: "?I w2" by (rule exI[of _ "[]"]) simp
    obtain v where v: "?I v \<and> ?round v = (Inl r, w')"
      by (rule exE[OF poll_last[where I = ?I, OF ret start keep]])
    from drain_round_log[OF L sel(4) sel(1) conjunct2[OF v]] obtain es' where
      es': "log w' = log v @ es'" "drain_rounds ae n es' (r = None)" by auto
    from conjunct1[OF v] obtain es where es: "log v = log w2 @ es" "drain_prefix ae n es" by blast
    have "log w' = log w @ cordoned n None # es @ es'"
      using l1 r0 None rt_logs(1)[OF L t] es(1) es'(1) by simp
    moreover have "drain_trace ae n (cordoned n None # es @ es') (r = None)"
      by (rule dt_drain[OF drain_prefix_then[OF es(2) es'(2)]])
    ultimately show ?thesis by blast
  qed
qed

subsection \<open>A node\<close>

lemma isNodeIdle_log:
  assumes "logs_calls log K c" and "over_client K c" and "isNodeIdle c nd w = (r, w')"
  shows "\<exists>r0. log w' = log w @ [PodsListed (on_node (node_Name nd)) r0]
    \<and> (case r of Inl e \<Rightarrow> isl r0 | Inr b \<Rightarrow> \<exists>ps. r0 = Inr ps \<and> b = idle_listing ps)"
proof -
  obtain l w1 where l: "Client_ListPodsOnNode K (node_Name nd) w = (l, w1)" by fastforce
  with list_logs[OF assms(1) l] assms(3) over_client_sel[OF assms(2)] show ?thesis
    by (cases l) (auto simp: isNodeIdle_def all_idle_iff idle_listing_def)
qed

lemma terminateAndDelete_log:
  assumes L: "logs_calls log K c" and over: "over_client K c"
    and run: "terminateAndDelete c n w = Some (r, w')"
  shows "\<exists>ts. log w' = log w @ ts \<and> termination_trace n ts (r = None)"
  using run
proof (cases rule: terminateAndDelete_cases)
  case (absent err w1)
  then have "Client_Delete K n w1 = (r, w')" by (simp add: over_client_sel[OF over])
  from delete_logs[OF L this] obtain r0 where "log w' = log w1 @ [NodeDeleted n r0]" "r = None \<longleftrightarrow> r0 = None" by blast
  then show ?thesis using kam_logs(1)[OF L absent(1)] tt_absent[OF absent(2), of n r0] by simp
next
  case (lookup_failed err)
  then show ?thesis using kam_logs(1)[OF L lookup_failed(1)] tt_lookup by auto
next
  case (refused srv w1 err)
  then show ?thesis using kam_logs(1)[OF L refused(1)] kam_logs(2)[OF L refused(2)] tt_refused by auto
next
  case (terminated srv w1 cmd w2 r2 w3)
  then have "Client_Delete K n w3 = (r, w')" by (simp add: over_client_sel[OF over])
  from delete_logs[OF L this] obtain r0 where "log w' = log w3 @ [NodeDeleted n r0]" "r = None \<longleftrightarrow> r0 = None" by blast
  then show ?thesis
    using kam_logs(1)[OF L terminated(1)] kam_logs(2)[OF L terminated(2)] kam_logs(3)[OF L terminated(3)]
      tt_done[of n srv cmd r2 r0] by simp
qed

lemma isNodeOldEnough_log:
  "logs_calls log K c \<Longrightarrow> isNodeOldEnough c nd w = (b, w') \<Longrightarrow> log w' = log w"
  by (auto simp: isNodeOldEnough_def split: option.splits prod.splits dest: rt_logs)

lemma down_node_log:
  assumes L: "logs_calls log K c" and over: "over_client K c"
    and run: "down_node c nd byPool w = Some (r, byPool', w')"
  shows "\<exists>es. log w' = log w @ es \<and> node_trace (c_ae c) (node_Name nd) r es"
proof (cases "poolForNode nd (c_cfg c)")
  case None
  then show ?thesis using run by (simp add: down_node_def)
next
  case (Some P)
  note pool = this
  show ?thesis
  proof (cases "at0 byPool (pool_Name P) \<le> pool_MinNodes P")
    case True
    then show ?thesis using run pool by (simp add: down_node_def)
  next
    case above: False
    obtain old w1 where o: "isNodeOldEnough c nd w = (old, w1)" by fastforce
    note l1 = isNodeOldEnough_log[OF L o]
    show ?thesis
    proof (cases old)
      case False
      then show ?thesis using run pool above o l1 by (simp add: down_node_def)
    next
      case True
      obtain i w2 where i: "isNodeIdle c nd w1 = (i, w2)" by fastforce
      from isNodeIdle_log[OF L over i] obtain r0 where
        l2: "log w2 = log w1 @ [PodsListed (on_node (node_Name nd)) r0]"
        and r0: "case i of Inl e \<Rightarrow> isl r0 | Inr b \<Rightarrow> \<exists>ps. r0 = Inr ps \<and> b = idle_listing ps" by blast
      note at_idle = run pool above o True i
      show ?thesis
      proof (cases "i = Inr True")
        case False
        then show ?thesis using at_idle l1 l2 r0
          by (cases i; cases r0) (auto simp: down_node_def split: if_splits)
      next
        case idle: True
        with r0 obtain ps where ps: "r0 = Inr ps" "idle_listing ps" by auto
        let ?drain = "drainNode (c_rt c) (c_ae c) (c_mut c) (c_pods c) (node_Name nd) (c_drainTimeout c) w2"
        from at_idle idle obtain d w3 where d: "?drain = Some (d, w3)"
          by (auto simp: down_node_def split: option.splits)
        from drainNode_log[OF L over d] obtain ds where
          l3: "log w3 = log w2 @ ds" and ds: "drain_trace (c_ae c) (node_Name nd) ds (d = None)" by blast
        show ?thesis
        proof (cases d)
          case (Some err)
          then show ?thesis using at_idle idle d l1 l2 l3 ps ds by (auto simp: down_node_def intro: nt_drain)
        next
          case None
          from at_idle idle d None obtain t w4 where t: "terminateAndDelete c (node_Name nd) w3 = Some (t, w4)"
            by (auto simp: down_node_def split: option.splits)
          from terminateAndDelete_log[OF L over t] obtain ts where
            l4: "log w4 = log w3 @ ts" and ts: "termination_trace (node_Name nd) ts (t = None)" by blast
          show ?thesis using at_idle idle d None t l1 l2 l3 l4 ps ds ts
            by (cases t) (auto simp: down_node_def intro: nt_terminate nt_down)
        qed
      qed
    qed
  qed
qed

subsection \<open>The tick\<close>

lemma down_nodes_log:
  assumes L: "logs_calls log K c" and over: "over_client K c"
    and "down_nodes c ns byPool w = Some (rs, w')"
  shows "\<exists>css. log w' = log w @ concat css
    \<and> list_all2 (\<lambda>(nd, r) es. node_trace (c_ae c) (node_Name nd) r es) rs css"
  using assms(3)
proof (induction ns arbitrary: byPool w rs)
  case Nil
  then show ?case by simp
next
  case (Cons nd ns)
  obtain r bp1 w1 where h: "down_node c nd byPool w = Some (r, bp1, w1)"
    using Cons.prems by (auto split: option.splits)
  obtain rs' where t: "down_nodes c ns bp1 w1 = Some (rs', w')" and rs: "rs = (nd, r) # rs'"
    using Cons.prems h by (auto split: option.splits)
  from down_node_log[OF L over h] obtain es where
    "log w1 = log w @ es" "node_trace (c_ae c) (node_Name nd) r es" by blast
  moreover from Cons.IH[OF t] obtain css where "log w' = log w1 @ concat css"
    "list_all2 (\<lambda>(nd, r) es. node_trace (c_ae c) (node_Name nd) r es) rs' css" by blast
  ultimately show ?case by (intro exI[of _ "es # css"]) (simp add: rs)
qed

lemma nodes_logs:
  assumes "logs_calls log K c" and "Client_ListNodes K w = (r, w')"
  shows "\<exists>r0. log w' = log w @ [NodesListed r0]
    \<and> (case r of Inl e \<Rightarrow> isl r0 | Inr ns \<Rightarrow> r0 = Inr ns)"
proof -
  obtain r0 w0 where a: "api_ListNodes K w = (r0, w0)" by fastforce
  have "appends log (api_ListNodes K) NodesListed" using assms(1) by (simp add: logs_calls_def)
  from appendsD[OF this a] show ?thesis
    using assms(2) a by (auto simp: Client_ListNodes_def split: sum.splits)
qed

lemma scaleDown_log:
  assumes L: "logs_calls log K c" and over: "over_client K c"
    and run: "scaleDown c w = Some (e, rs, w')"
  shows "\<exists>es. log w' = log w @ es \<and> action_trace c (RanScaleDown e rs) es"
proof -
  obtain l w1 where l: "ListNodes (c_nodes c) w = (l, w1)" by fastforce
  then have "Client_ListNodes K w = (l, w1)" by (simp add: over_client_sel[OF over])
  from nodes_logs[OF L this] obtain r0 where l1: "log w1 = log w @ [NodesListed r0]"
    and r0: "case l of Inl e \<Rightarrow> isl r0 | Inr ns \<Rightarrow> r0 = Inr ns" by blast
  show ?thesis
  proof (cases l)
    case (Inl err)
    then show ?thesis using run l l1 r0 at_unlisted by (cases r0) (auto simp: scaleDown_def)
  next
    case (Inr ns)
    then have d: "down_nodes c ns (countNodesByPool ns) w1 = Some (rs, w')" and "e = None"
      using run l by (auto simp: scaleDown_def split: option.splits)
    from down_nodes_log[OF L over d] obtain css where "log w' = log w1 @ concat css"
      "list_all2 (\<lambda>(nd, r) es. node_trace (c_ae c) (node_Name nd) r es) rs css" by blast
    then show ?thesis using \<open>e = None\<close> l1 r0 Inr down_nodes_fst[OF d] at_down by auto
  qed
qed

text \<open>Counting, naming and starting calls neither API.\<close>

lemma call_logs:
  assumes L: "logs_calls log K c"
  shows "call_Count (c_rt c) name tr w = (k, tr', w') \<Longrightarrow> log w' = log w"
    and "call_Add (c_rt c) name n tr w = (ok, tr', w') \<Longrightarrow> log w' = log w"
    and "call_generateNodeName (c_rt c) name w = (n, w') \<Longrightarrow> log w' = log w"
  by (auto simp: call_Count_def call_Add_def call_generateNodeName_def rt_logs[OF L]
      split: prod.splits if_splits)

lemma create_loop_log:
  assumes L: "logs_calls log K c"
  shows "create_loop (c_rt c) P name k tr w = (started, tr', w') \<Longrightarrow> log w' = log w"
proof (induction k arbitrary: tr w started)
  case (Suc k)
  obtain n w1 where g: "call_generateNodeName (c_rt c) name w = (n, w1)" by fastforce
  obtain ok tr1 w2 where a: "call_Add (c_rt c) name n tr w1 = (ok, tr1, w2)" by (metis prod_cases3)
  obtain rest tr2 w3 where r: "create_loop (c_rt c) P name k tr1 w2 = (rest, tr2, w3)" by (metis prod_cases3)
  show ?case using Suc.prems Suc.IH[of tr1 w2 rest] g a r call_logs(2)[OF L a] call_logs(3)[OF L g] by simp
qed simp

lemma scale_pools_log:
  assumes L: "logs_calls log K c"
  shows "scale_pools (c_rt c) cfg nbp es tr w = (started, tr', w') \<Longrightarrow> log w' = log w"
proof (induction es arbitrary: tr w started)
  case (Cons e es)
  obtain s1 tr1 w1 where h: "scale_pool (c_rt c) cfg nbp e tr w = (s1, tr1, w1)" by (metis prod_cases3)
  have "log w1 = log w"
  proof (cases "PoolByName cfg (fst e)")
    case None
    then show ?thesis using h by (simp add: scale_pool_def split_beta)
  next
    case (Some P)
    obtain k tr0 w0 where k: "call_Count (c_rt c) (fst e) tr w = (k, tr0, w0)" by (metis prod_cases3)
    have "create_loop (c_rt c) P (fst e) (nat (to_create P (snd e) (at0 nbp (fst e)) k)) tr0 w0 = (s1, tr1, w1)"
      using h Some k by (cases e) (simp add: scale_pool_def)
    from create_loop_log[OF L this] call_logs(1)[OF L k] show ?thesis by simp
  qed
  then show ?case using Cons h by (auto split: prod.splits)
qed simp

lemma scale_pools_called_for:
  assumes s: "scale_pools rt cfg (countNodesByPool ns) (enum (groupPendingByPool ps cfg)) tr w = (started, tr', w')"
    and enum: "\<forall>m. mset (enum m) = mset m"
  shows "called_for cfg ps ns started"
proof -
  let ?g = "groupPendingByPool ps cfg"
  have g: "mset (enum ?g) = mset ?g" "wf_map ?g" using enum groupPendingByPool_wf by auto
  have own: "PoolByName cfg (pool_Name p) = Some p \<and> prefix (pool_Name p @ ''-'') n" if "(p, n) \<in> set started" for p n
    using scale_pools_origin[OF s that] gn.gen_prefix by blast
  have "int (length (started_for (pool_Name P) started))
      \<le> min (int (length (pods_of cfg (pool_Name P) ps))) (pool_MaxNodes P - int (length (nodes_of (pool_Name P) ns)))"
    if m: "(P, n) \<in> set started" for P n
  proof -
    have "0 < length (started_for (pool_Name P) started)" 
      using m by (auto simp: started_for_def filter_empty_conv)
    moreover have "int (length (started_for (pool_Name P) started))
        \<le> max 0 (min (int (length (pods_of cfg (pool_Name P) ps))) (pool_MaxNodes P - int (length (nodes_of (pool_Name P) ns))))"
      using scale_pools_facts[OF s conjunct1[OF own[OF m]] at0_enum(2)[of enum ?g, OF g]]
      by (simp only: at0_enum(1)[of enum ?g, OF g] groupPendingByPool_count countNodesByPool_count)
    ultimately show ?thesis by linarith
  qed
  with own show ?thesis by (auto simp: called_for_def list_all_iff)
qed

lemma scaleUp_log:
  assumes L: "logs_calls log K c" and over: "over_client K c" and enum: "\<forall>m. mset (enum m) = mset m"
    and run: "scaleUp c enum tr w = (e, started, tr', w')"
  shows "\<exists>es. log w' = log w @ es \<and> action_trace c (RanScaleUp e started) es"
proof -
  obtain l w1 where l: "Client_ListPendingPods K w = (l, w1)" by fastforce
  obtain r0 w0 where a: "api_ListPods K [] ''status.phase=Pending'' w = (r0, w0)" by fastforce
  have "appends log (api_ListPods K [] sel) (PodsListed sel)" for sel using L by (simp add: logs_calls_def)
  from appendsD[OF this a] have l1: "log w1 = log w @ [PodsListed ''status.phase=Pending'' r0]"
    and r0: "case l of Inl e \<Rightarrow> isl r0 | Inr ps \<Rightarrow> r0 = Inr ps"
    using l a by (auto simp: Client_ListPendingPods_def split: sum.splits)
  have pods: "ListPendingPods (c_pods c) w = (l, w1)"
    using l over by (simp add: over_client_def Client_as_PodLister_def)
  show ?thesis
  proof (cases l)
    case (Inl err)
    with r0 obtain e0 where "r0 = Inl e0" by (cases r0) auto
    then show ?thesis using run pods Inl l1 at_no_pods by (auto simp: scaleUp_def)
  next
    case (Inr ps)
    with r0 have r0: "r0 = Inr ps" by simp
    obtain ln w2 where ln: "Client_ListNodes K w1 = (ln, w2)" by fastforce
    from nodes_logs[OF L ln] obtain n0 where l2: "log w2 = log w1 @ [NodesListed n0]"
      and n0: "case ln of Inl e \<Rightarrow> isl n0 | Inr ns \<Rightarrow> n0 = Inr ns" by blast
    have nodes: "ListNodes (c_nodes c) w1 = (ln, w2)" using ln by (simp add: over_client_sel[OF over])
    show ?thesis
    proof (cases ln)
      case (Inl err)
      with n0 obtain e0 where "n0 = Inl e0" by (cases n0) auto
      then show ?thesis using run pods nodes \<open>l = Inr ps\<close> Inl l1 l2 r0 at_no_nodes
        by (auto simp: scaleUp_def Let_def)
    next
      case (Inr ns)
      with n0 have n0: "n0 = Inr ns" by simp
      obtain s1 tr1 w3 where s: "scale_pools (c_rt c) (c_cfg c) (countNodesByPool ns)
          (enum (groupPendingByPool ps (c_cfg c))) tr w2 = (s1, tr1, w3)" by (metis prod_cases3)
      then have eq: "e = None" "s1 = started" "w3 = w'"
        using run pods nodes \<open>l = Inr ps\<close> Inr by (auto simp: scaleUp_def Let_def)
      show ?thesis
        using scale_pools_log[OF L s] at_up[OF scale_pools_called_for[OF s enum]] l1 l2 r0 n0 by (auto simp: eq)
    qed
  qed
qed

section \<open>The loop\<close>

lemma run_loop_log:
  assumes L: "logs_calls log K c" and over: "over_client K c" and enum: "\<forall>m. mset (enum m) = mset m"
  shows "run_loop c enum evs (st, w) = Some (as, st', w') \<Longrightarrow>
    \<exists>ess. log w' = log w @ concat ess \<and> list_all2 (action_trace c) as ess"
proof (induction evs arbitrary: st w as)
  case Nil
  then show ?case by (intro exI[of _ "[]"]) simp
next
  case (Cons ev evs)
  have step: ?case if first: "\<exists>es. log w1 = log w @ es \<and> action_trace c a es"
    and rest: "run_loop c enum evs (st1, w1) = Some (as', st', w')" and as: "as = a # as'" for a as' st1 w1
  proof -
    from first obtain es where "log w1 = log w @ es" "action_trace c a es" by blast
    moreover from Cons.IH[OF rest] obtain ess where "log w' = log w1 @ concat ess" "list_all2 (action_trace c) as' ess"
      by blast
    ultimately show ?thesis by (intro exI[of _ "es # ess"]) (simp add: as)
  qed
  show ?case
  proof (cases ev)
    case CtxDone
    then show ?thesis using Cons.prems by (intro exI[of _ "[[]]"]) auto
  next
    case UpTick
    obtain e started tr w1 where u: "scaleUp c enum (st_creating st) w = (e, started, tr, w1)" by (metis prod_cases4)
    obtain as' where "run_loop c enum evs (st\<lparr>st_creating := tr\<rparr>, w1) = Some (as', st', w')"
      "as = RanScaleUp e started # as'"
      using Cons.prems UpTick u by (auto simp: runScaleUp_def split: option.splits)
    then show ?thesis by (rule step[OF scaleUp_log[OF L over enum u]])
  next
    case DownTick
    obtain a st1 w1 where d: "runScaleDown c (st, w) = Some (a, st1, w1)"
      using Cons.prems DownTick by (auto split: option.splits)
    obtain as' where rest: "run_loop c enum evs (st1, w1) = Some (as', st', w')" "as = a # as'"
      using Cons.prems DownTick d by (auto split: option.splits)
    have "\<exists>es. log w1 = log w @ es \<and> action_trace c a es"
      using d by (auto simp: runScaleDown_def Let_def split: if_splits option.splits dest: scaleDown_log[OF L over])
    then show ?thesis by (rule step[OF _ rest])
  qed
qed

text \<open>
  C7. Over the Kubernetes client the control loop makes these calls and no others, tick after tick. A
  scale-up tick lists the pending pods, then the nodes, and starts creations only if both
  listings answered: for configured pools, and no more for a pool than its pending pods and
  the room under its maximum. A scale-down tick lists the nodes, and if that fails does nothing
  else; otherwise it makes, node after node in the order of the listing, the calls of a trace that
  the outcome it reports for the node allows. In particular a node is cordoned, and its pods
  evicted, only after a listing that showed it idle; only evictable pods are evicted; its server
  is terminated only after a drain that ended on a listing with nothing to evict, under the
  id that was looked up; and the node object is deleted last, only when the server is absent or
  its termination was accepted.
\<close>

theorem run_trace:
  assumes "logs_calls log K c" and "over_client K c" and "\<forall>m. mset (enum m) = mset m"
    and "Run c enum evs (st, w) = Some (as, st', w')"
  shows "\<exists>ess. log w' = log w @ concat ess \<and> list_all2 (action_trace c) as ess"
proof -
  have "run_loop c enum (UpTick # evs) (st, w) = Some (as, st', w')" using assms(4) by (simp add: Run_def)
  then show ?thesis by (rule run_loop_log[OF assms(1-3)])
qed

subsection \<open>A tick with its log\<close>

text \<open>The simulated world with a log beside it. The pair of nodes has one finished pod, which makes its
  node idle and is evicted.\<close>

definition logged :: "('r \<Rightarrow> call_event) \<Rightarrow> ('v \<Rightarrow> 'r \<times> 'v) \<Rightarrow> 'v \<times> call_event list \<Rightarrow> 'r \<times> 'v \<times> call_event list" where
  "logged ev f w = (case f (fst w) of (r, v) \<Rightarrow> (r, v, snd w @ [ev r]))"

definition unlogged :: "('v \<Rightarrow> 'r \<times> 'v) \<Rightarrow> 'v \<times> call_event list \<Rightarrow> 'r \<times> 'v \<times> call_event list" where
  "unlogged f w = (case f (fst w) of (r, v) \<Rightarrow> (r, v, snd w))"

definition logged_kube :: "(sim \<times> call_event list) kube_api" where
  "logged_kube =
     \<lparr>api_ListPods = (\<lambda>ns sel. logged (PodsListed sel)
         (if sel = ''status.phase=Pending'' then ListPendingPods sim_pod_lister
          else ListPodsOnNode sim_pod_lister (drop 14 sel))),
      api_ListNodes = logged NodesListed (ListNodes sim_node_lister),
      api_PatchNode = (\<lambda>n ty p. logged (NodePatched n ty p) (Cordon (sim_mutator True) n)),
      api_EvictV1 = (\<lambda>ns (nm, ns'). logged (PodEvicted ns nm)
         (Evict (sim_mutator True) ((sample_pending nm)\<lparr>pod_Namespace := ns\<rparr>))),
      api_DeleteNode = (\<lambda>n. logged (NodeDeleted n) (Delete (sim_mutator True) n))\<rparr>"

definition logged_kam :: "(sim \<times> call_event list) kam_client" where
  "logged_kam =
     \<lparr>kam_CreateServer = (\<lambda>r w. Some (unlogged (\<lambda>v. (Inr ''cmd'', v)) w)),
      kam_WaitProvision = (\<lambda>cmd name t w. Some (unlogged (\<lambda>v. (Inr zero_server, v)) w)),
      kam_WaitTerminate = (\<lambda>cmd t w. Some (logged (TerminationAwaited cmd) (\<lambda>v. (None, v)) w)),
      kam_FindServerByName = (\<lambda>n. logged (ServerFound n) (kam_FindServerByName sim_kam n)),
      kam_TerminateServer = (\<lambda>i. logged (TerminationSent i) (kam_TerminateServer sim_kam i))\<rparr>"

definition logged_runtime :: "(sim \<times> call_event list) up_runtime" where
  "logged_runtime =
     \<lparr>rt_now = unlogged sim_now, rt_wait = (\<lambda>d. unlogged (sim_wait d)), rt_ctx_err = (\<lambda>w. None),
      up_rand = unlogged (up_rand sim_runtime), up_finished = unlogged (up_finished sim_runtime)\<rparr>"

definition logged_controller :: "(sim \<times> call_event list) controller" where
  "logged_controller =
     fst (New (sample_config 1 3) (Client_as_PodLister logged_kube) (Client_as_NodeLister logged_kube)
            (Client_as_NodeMutator logged_kube) logged_kam sim_errors logged_runtime
            \<lparr>opt_ScaleUpEvery = 0, opt_ScaleDownEvery = 0, opt_NodeReadyTimeout = 0,
             opt_IdleThreshold = 0, opt_DrainTimeout = 0\<rparr>)"

definition finished_pair :: sim where
  "finished_pair = idle_pair\<lparr>sim_pods := [(''a'', (sample_running ''job'' ''Job'')\<lparr>pod_Phase := ''Succeeded''\<rparr>)]\<rparr>"

lemma logged_controller_logs: "logs_calls snd logged_kube logged_controller"
  by (auto simp: logs_calls_def appends_def silent_def logged_kube_def logged_kam_def logged_runtime_def
      logged_controller_def New_def Let_def logged_def unlogged_def split: prod.splits)

lemma logged_controller_over: "over_client logged_kube logged_controller"
  by (simp add: over_client_def logged_controller_def New_def Let_def)

lemma finished_pair_run:
  "case Run logged_controller (\<lambda>m. m) [DownTick, CtxDone]
      (\<lparr>st_creating = NewPendingTracker 5, st_scaleDownInProgress = False\<rparr>, finished_pair, []) of None \<Rightarrow> False
   | Some (as, st, w) \<Rightarrow> length as = 3 \<and> recorded ''app'' (st_creating st) = 1
       \<and> sim_evicted (fst w) = [''job''] \<and> sim_vms (fst w) = [''b''] \<and> length (snd w) = 12"
  by code_simp

theorem run_trace_witness:
  "\<exists>as st w ess. Run logged_controller (\<lambda>m. m) [DownTick, CtxDone]
      (\<lparr>st_creating = NewPendingTracker 5, st_scaleDownInProgress = False\<rparr>, finished_pair, []) = Some (as, st, w)
     \<and> snd w = concat ess \<and> length (concat ess) = 12 \<and> list_all2 (action_trace logged_controller) as ess"
proof -
  obtain as st w where run: "Run logged_controller (\<lambda>m. m) [DownTick, CtxDone]
      (\<lparr>st_creating = NewPendingTracker 5, st_scaleDownInProgress = False\<rparr>, finished_pair, []) = Some (as, st, w)"
    and n: "length (snd w) = 12"
    using finished_pair_run by (auto split: option.splits prod.splits)
  from run_trace[OF logged_controller_logs logged_controller_over _ run] obtain ess where
    "snd w = concat ess" "list_all2 (action_trace logged_controller) as ess" by auto
  with n run show ?thesis by auto
qed

end
