(* ===== verification/Logging.thy ===== *)
theory Logging
  imports Prelude
begin

text \<open>
  \<open>internal/logging/logging.go\<close>: the level of the logger and the redaction of attributes, with
  what they use of \<open>log/slog\<close>: a handler drops records under its level and hands every
  attribute to \<open>ReplaceAttr\<close>, those inside of groups too, but not the groups themselves.
\<close>

section \<open>Levels\<close>

datatype log_level = LevelDebug | LevelInfo | LevelWarn | LevelError

text \<open>\<open>slog.Level\<close> is an integer.\<close>

fun level_int :: "log_level \<Rightarrow> int" where
  "level_int LevelDebug = - 4"
| "level_int LevelInfo = 0"
| "level_int LevelWarn = 4"
| "level_int LevelError = 8"

lemma level_int_inj: "level_int a = level_int b \<Longrightarrow> a = b"
  by (cases a; cases b) simp_all

instantiation log_level :: linorder
begin

definition less_eq_log_level :: "log_level \<Rightarrow> log_level \<Rightarrow> bool" where
  "less_eq_log_level a b = (level_int a \<le> level_int b)"

definition less_log_level :: "log_level \<Rightarrow> log_level \<Rightarrow> bool" where
  "less_log_level a b = (level_int a < level_int b)"

instance
  by standard (auto simp: less_eq_log_level_def less_log_level_def intro: level_int_inj)

end

text \<open>\<open>strings.TrimSpace\<close>: the runes for which \<open>unicode.IsSpace\<close> holds, in UTF-8.\<close>

definition space_runes :: "string list" where
  "space_runes =
     map (\<lambda>c. [c]) [CHR '' '', CHR 0x09, CHR 0x0A, CHR 0x0B, CHR 0x0C, CHR 0x0D]
     @ [[CHR 0xC2, CHR 0x85], [CHR 0xC2, CHR 0xA0], [CHR 0xE1, CHR 0x9A, CHR 0x80]]
     @ map (\<lambda>b. [CHR 0xE2, CHR 0x80, b])
         [CHR 0x80, CHR 0x81, CHR 0x82, CHR 0x83, CHR 0x84, CHR 0x85, CHR 0x86, CHR 0x87, CHR 0x88,
          CHR 0x89, CHR 0x8A, CHR 0xA8, CHR 0xA9, CHR 0xAF]
     @ [[CHR 0xE2, CHR 0x81, CHR 0x9F], [CHR 0xE3, CHR 0x80, CHR 0x80]]"

function trim_start :: "string list \<Rightarrow> string \<Rightarrow> string" where
  "trim_start runes s =
     (case find (\<lambda>r. r \<noteq> [] \<and> prefix r s) runes of
        None \<Rightarrow> s | Some r \<Rightarrow> trim_start runes (drop (length r) s))"
  by pat_completeness auto
termination
  by (relation "measure (length \<circ> snd)") (auto dest!: find_Some_mem simp: prefix_def)

declare trim_start.simps [simp del]

definition trim_space :: "string \<Rightarrow> string" where
  "trim_space s = rev (trim_start (map rev space_runes) (rev (trim_start space_runes s)))"

definition parseLevel :: "string \<Rightarrow> log_level" where
  "parseLevel s =
     (let t = to_lower (trim_space s)
      in if t = ''debug'' then LevelDebug
         else if t = ''warn'' \<or> t = ''warning'' then LevelWarn
         else if t = ''error'' \<or> t = ''err'' then LevelError
         else LevelInfo)"

section \<open>Attributes\<close>

text \<open>An attribute: a key with the text of its value, or a group.\<close>

datatype attr = Attr string string | Group string "attr list"

definition secret_words :: "string list" where
  "secret_words = [''secret'', ''token'', ''password'', ''authclient'', ''authsecret'', ''sshkey'', ''api_secret'', ''api_key'']"

text \<open>\<open>secretKeyRE.MatchString\<close>: one of the words occurs, in any case.\<close>

definition secretKeyRE :: "string \<Rightarrow> bool" where
  "secretKeyRE key = list_ex (contains (fold_case key)) secret_words"

definition ReplaceAttr :: "string \<Rightarrow> string \<Rightarrow> attr" where
  "ReplaceAttr key val = (if secretKeyRE key then Attr key ''<redacted>'' else Attr key val)"

fun handled :: "attr \<Rightarrow> attr" where
  "handled (Attr k v) = ReplaceAttr k v"
| "handled (Group k as) = Group k (map handled as)"

text \<open>The logger that \<open>New\<close> builds, and the attributes it writes of a record, if it does.\<close>

record logger =
  lg_Level :: log_level

definition New_logger :: "string \<Rightarrow> logger" where
  "New_logger level = \<lparr>lg_Level = parseLevel level\<rparr>"

definition logged :: "logger \<Rightarrow> log_level \<Rightarrow> attr list \<Rightarrow> attr list option" where
  "logged lg lvl attrs = (if lg_Level lg \<le> lvl then Some (map handled attrs) else None)"

section \<open>Facts\<close>

text \<open>The keys of an attribute with their values, groups flattened.\<close>

fun leaves :: "attr \<Rightarrow> (string \<times> string) list" where
  "leaves (Attr k v) = [(k, v)]"
| "leaves (Group k as) = concat (map leaves as)"

lemma leaves_handled:
  "leaves (handled a) = map (\<lambda>(k, v). (k, if secretKeyRE k then ''<redacted>'' else v)) (leaves a)"
  by (induction a rule: handled.induct) (auto simp: ReplaceAttr_def map_concat comp_def cong: map_cong)

text \<open>No rune that folds to a letter ends with the start of a text that is not a continuation.\<close>

definition starts_rune :: "string \<Rightarrow> bool" where
  "starts_rune s = (s = [] \<or> hd s \<notin> {CHR 0x84, CHR 0xAA, CHR 0xBF})"

lemma fold_case_append: "starts_rune t \<Longrightarrow> fold_case (s @ t) = fold_case s @ fold_case t"
proof (induction s rule: length_induct)
  case (1 s)
  show ?case
  proof (cases s)
    case (Cons c s')
    have k: "prefix [CHR 0xE2, CHR 0x84, CHR 0xAA] (c # s' @ t) = prefix [CHR 0xE2, CHR 0x84, CHR 0xAA] (c # s')"
      using 1(2) by (cases s'; cases "tl s'"; cases t) (auto simp: starts_rune_def)
    have l: "prefix [CHR 0xC5, CHR 0xBF] (c # s' @ t) = prefix [CHR 0xC5, CHR 0xBF] (c # s')"
      using 1(2) by (cases s'; cases t) (auto simp: starts_rune_def)
    have IH: "fold_case (drop n s' @ t) = fold_case (drop n s') @ fold_case t" for n
      using 1 Cons by simp
    have d: "prefix [x, y] s' \<Longrightarrow> 2 - length s' = 0" "prefix [x] s' \<Longrightarrow> 1 - length s' = 0" for x y
      by (auto dest!: prefix_length_le)
    show ?thesis
      using IH[of 0] IH[of 1] IH[of 2] d(1)[of "CHR 0x84" "CHR 0xAA"] d(2)[of "CHR 0xBF"]
      unfolding Cons append_Cons fold_case.simps k l by (simp add: numeral_2_eq_2)
  qed simp
qed

lemma lower_char_ascii:
  assumes "lower_char c \<in> set (concat secret_words)"
  shows "c \<notin> {CHR 0x84, CHR 0xAA, CHR 0xBF, CHR 0xE2, CHR 0xC5}"
  using assms by (auto simp: lower_char_def secret_words_def)

lemma fold_case_ascii:
  "list_all (\<lambda>c. c \<notin> {CHR 0x84, CHR 0xAA, CHR 0xBF, CHR 0xE2, CHR 0xC5}) w \<Longrightarrow> fold_case w = map lower_char w"
  by (induction w) auto

text \<open>A key with one of the words in it, in any mix of cases, is secret.\<close>

lemma secret_word_matches:
  assumes w: "map lower_char w \<in> set secret_words" and v: "starts_rune v"
  shows "secretKeyRE (u @ w @ v)"
proof -
  have c: "list_all (\<lambda>c. c \<notin> {CHR 0x84, CHR 0xAA, CHR 0xBF, CHR 0xE2, CHR 0xC5}) w"
    unfolding list_all_iff
  proof
    fix c
    assume "c \<in> set w"
    then have "lower_char c \<in> set (map lower_char w)" by simp
    then have "lower_char c \<in> set (concat secret_words)" using w by (metis UnionI image_eqI set_concat)
    then show "c \<notin> {CHR 0x84, CHR 0xAA, CHR 0xBF, CHR 0xE2, CHR 0xC5}" by (rule lower_char_ascii)
  qed
  have "[] \<notin> set secret_words" by (simp add: secret_words_def)
  then obtain x xs where "w = x # xs" using w by (cases w) auto
  then have "starts_rune (w @ v)" using c by (simp add: starts_rune_def)
  then have "fold_case (u @ w @ v) = fold_case u @ map lower_char w @ fold_case v"
    using fold_case_append v fold_case_ascii[OF c] by simp
  then have "contains (fold_case (u @ w @ v)) (map lower_char w)" by (simp add: contains_append)
  then show ?thesis using w by (auto simp: secretKeyRE_def list_ex_iff)
qed

section \<open>Properties\<close>



end
