(* ===== verification/Entrypoint.thy ===== *)
theory Entrypoint
  imports Controller Kubeclient CloudClient Logging
begin

text \<open>
  \<open>cmd/autoscaler/main.go\<close>: the flags, the start-up in its order, the wiring of the components
  and the exit code.
\<close>

section \<open>Flags\<close>

text \<open>\<open>flag.Parse\<close> for a program whose only flag is the boolean \<open>help\<close>: its value, the request
  for help by \<open>-h\<close> (exit code 0), or a malformed command line (exit code 2).\<close>

datatype flag_result = Parsed bool | HelpRequested | FlagError

definition ParseBool :: "string \<Rightarrow> bool option" where
  "ParseBool s =
     (if s \<in> set [''1'', ''t'', ''T'', ''TRUE'', ''true'', ''True''] then Some True
      else if s \<in> set [''0'', ''f'', ''F'', ''FALSE'', ''false'', ''False''] then Some False
      else None)"

text \<open>The text after the dashes, split at the first \<open>=\<close>.\<close>

definition flag_parts :: "string \<Rightarrow> string \<times> string option" where
  "flag_parts s =
     (case dropWhile (\<lambda>c. c \<noteq> CHR ''='') s of
        [] \<Rightarrow> (s, None)
      | e # v \<Rightarrow> (takeWhile (\<lambda>c. c \<noteq> CHR ''='') s, Some v))"

fun parse_flags :: "string list \<Rightarrow> bool \<Rightarrow> flag_result" where
  "parse_flags [] help = Parsed help"
| "parse_flags (arg # args) help =
     (if length arg < 2 \<or> hd arg \<noteq> CHR ''-'' then Parsed help
      else if arg = ''--'' then Parsed help
      else
      (let s = (if prefix ''--'' arg then drop 2 arg else drop 1 arg) in
       if s = [] \<or> hd s = CHR ''-'' \<or> hd s = CHR ''='' then FlagError
       else
      (case flag_parts s of (name, val) \<Rightarrow>
       if name = ''help'' then
         (case val of
            None \<Rightarrow> parse_flags args True
          | Some v \<Rightarrow> (case ParseBool v of None \<Rightarrow> FlagError | Some b \<Rightarrow> parse_flags args b))
       else if name = ''h'' then HelpRequested
       else FlagError)))"

section \<open>Start-up\<close>

definition default_config_path :: string where
  "default_config_path = ''/etc/autoscaler/pools.yaml''"

definition config_path :: "(string \<Rightarrow> string) \<Rightarrow> string" where
  "config_path getenv =
     (if getenv ''AUTOSCALER_CONFIG'' = [] then default_config_path else getenv ''AUTOSCALER_CONFIG'')"

text \<open>What \<open>main\<close> runs in: the command line and the environment, the parsers and files of \<open>Load\<close>,
  the order in which the map of credentials is visited, client-go with the API it yields, the
  network, the rest of the runtime and the order of the map of pending pods.\<close>

record ('r, 'k, 'w) process =
  ps_args :: "string list"
  ps_getenv :: "string \<Rightarrow> string"
  ps_loader :: loader
  ps_creds_order :: "string list"
  ps_rest :: "('r, 'k) rest_env"
  ps_kube_api :: "'k \<Rightarrow> (token_cache \<times> 'w) kube_api"
  ps_api_errors :: api_errors
  ps_net :: "'w net"
  ps_runtime :: "(token_cache \<times> 'w) up_runtime"
  ps_enum :: "(string, int) gomap \<Rightarrow> (string, int) gomap"

text \<open>How \<open>main\<close> ends: with the usage, at one of the stages of the start-up, or when \<open>Run\<close>
  returns. \<open>Run\<close> returns no other value than \<open>nil\<close>.\<close>

datatype 'w main_outcome =
    PrintedUsage
  | BadFlags
  | ConfigFailed goerr
  | CredentialsFailed goerr
  | KubernetesFailed goerr
  | RunReturned "action list" ctl_state 'w

fun exit_code :: "'w main_outcome \<Rightarrow> int" where
  "exit_code PrintedUsage = 0"
| "exit_code BadFlags = 2"
| "exit_code (ConfigFailed err) = 2"
| "exit_code (CredentialsFailed err) = 2"
| "exit_code (KubernetesFailed err) = 2"
| "exit_code (RunReturned as st w) = 0"

definition default_options :: options where
  "default_options =
     \<lparr>opt_ScaleUpEvery = 0, opt_ScaleDownEvery = 0, opt_NodeReadyTimeout = 0,
      opt_IdleThreshold = 0, opt_DrainTimeout = 0\<rparr>"

text \<open>The controller over the clients that \<open>main\<close> makes.\<close>

definition wire_controller ::
  "('r, 'k, 'w) process \<Rightarrow> config \<Rightarrow> 'k \<Rightarrow> (token_cache \<times> 'w) controller \<times> ctl_state" where
  "wire_controller ps cfg kc =
     (let K = ps_kube_api ps kc in
      New cfg (Client_as_PodLister K) (Client_as_NodeLister K) (Client_as_NodeMutator K)
        (httpClient_as_Client (ps_net ps) (NewClient (cfg_Creds cfg) [])) (ps_api_errors ps)
        (ps_runtime ps) default_options)"

definition main_run ::
  "('r, 'k, 'w) process \<Rightarrow> event list \<Rightarrow> token_cache \<times> 'w \<Rightarrow> (token_cache \<times> 'w) main_outcome option" where
  "main_run ps evs s =
     (case parse_flags (ps_args ps) False of
        FlagError \<Rightarrow> Some BadFlags
      | HelpRequested \<Rightarrow> Some PrintedUsage
      | Parsed True \<Rightarrow> Some PrintedUsage
      | Parsed False \<Rightarrow>
     (case Load (ps_loader ps) (config_path (ps_getenv ps)) of
        Inl err \<Rightarrow> Some (ConfigFailed err)
      | Inr cfg \<Rightarrow>
     (case LoadCredentials (ps_getenv ps) (ps_creds_order ps) of
        Inl err \<Rightarrow> Some (CredentialsFailed err)
      | Inr creds \<Rightarrow>
     (case NewInClusterOrKubeconfig (ps_rest ps) of
        Inl err \<Rightarrow> Some (KubernetesFailed err)
      | Inr kc \<Rightarrow>
     (case wire_controller ps (cfg\<lparr>cfg_Creds := creds\<rparr>) kc of (c, st) \<Rightarrow>
     (case Run c (ps_enum ps) evs (st, s) of
        None \<Rightarrow> None
      | Some (as, st1, s1) \<Rightarrow> Some (RunReturned as st1 s1)))))))"

text \<open>The token cache with which the client starts: no token.\<close>

definition no_token :: token_cache where
  "no_token = \<lparr>tc_token = [], tc_expiresAt = 0\<rparr>"

section \<open>The outcomes\<close>

definition env_credentials :: "(string \<Rightarrow> string) \<Rightarrow> credentials" where
  "env_credentials getenv =
     \<lparr>cred_ClientID = getenv ''KAMATERA_API_CLIENT_ID'', cred_Secret = getenv ''KAMATERA_API_SECRET'',
      cred_JoinToken = getenv ''AUTOSCALER_JOIN_TOKEN'', cred_SSHPubKey = getenv ''SSH_PUB_KEY''\<rparr>"

lemma LoadCredentials_env:
  assumes "mset order = mset required_env"
  shows "case LoadCredentials getenv order of
      Inl e \<Rightarrow> \<not> list_all (\<lambda>k. getenv k \<noteq> []) required_env
    | Inr cr \<Rightarrow> list_all (\<lambda>k. getenv k \<noteq> []) required_env \<and> cr = env_credentials getenv"
  using LoadCredentials_spec[OF assms, of getenv]
  by (auto simp: env_credentials_def list_all_iff split: sum.splits)

lemma main_run_start:
  assumes "parse_flags (ps_args ps) False = Parsed False"
    and "Load (ps_loader ps) (config_path (ps_getenv ps)) = Inr cfg"
    and "LoadCredentials (ps_getenv ps) (ps_creds_order ps) = Inr creds"
    and "NewInClusterOrKubeconfig (ps_rest ps) = Inr kc"
  shows "main_run ps evs s =
    (case wire_controller ps (cfg\<lparr>cfg_Creds := creds\<rparr>) kc of (c, st) \<Rightarrow>
       map_option (\<lambda>(as, st1, s1). RunReturned as st1 s1) (Run c (ps_enum ps) evs (st, s)))"
  using assms by (simp add: main_run_def split: prod.splits option.splits)

text \<open>Where the start-up stops, and that it stops without an effect.\<close>

lemma main_run_cases:
  obtains (flags) "parse_flags (ps_args ps) False = FlagError" "main_run ps evs s = Some BadFlags"
  | (usage) "parse_flags (ps_args ps) False \<in> {HelpRequested, Parsed True}" "main_run ps evs s = Some PrintedUsage"
  | (config) err where "parse_flags (ps_args ps) False = Parsed False"
      "Load (ps_loader ps) (config_path (ps_getenv ps)) = Inl err" "main_run ps evs s = Some (ConfigFailed err)"
  | (creds) cfg err where "parse_flags (ps_args ps) False = Parsed False"
      "Load (ps_loader ps) (config_path (ps_getenv ps)) = Inr cfg"
      "LoadCredentials (ps_getenv ps) (ps_creds_order ps) = Inl err" "main_run ps evs s = Some (CredentialsFailed err)"
  | (kube) cfg creds err where "parse_flags (ps_args ps) False = Parsed False"
      "Load (ps_loader ps) (config_path (ps_getenv ps)) = Inr cfg"
      "LoadCredentials (ps_getenv ps) (ps_creds_order ps) = Inr creds"
      "NewInClusterOrKubeconfig (ps_rest ps) = Inl err" "main_run ps evs s = Some (KubernetesFailed err)"
  | (start) cfg creds kc where "parse_flags (ps_args ps) False = Parsed False"
      "Load (ps_loader ps) (config_path (ps_getenv ps)) = Inr cfg"
      "LoadCredentials (ps_getenv ps) (ps_creds_order ps) = Inr creds"
      "NewInClusterOrKubeconfig (ps_rest ps) = Inr kc"
proof (cases "parse_flags (ps_args ps) False")
  case (Parsed b)
  show ?thesis
  proof (cases b)
    case True
    then show ?thesis using usage Parsed by (simp add: main_run_def)
  next
    case False
    then show ?thesis
      using config creds kube start Parsed
      by (cases "Load (ps_loader ps) (config_path (ps_getenv ps))";
          cases "LoadCredentials (ps_getenv ps) (ps_creds_order ps)"; cases "NewInClusterOrKubeconfig (ps_rest ps)")
        (simp_all add: main_run_def)
  qed
qed (use flags usage in \<open>simp_all add: main_run_def\<close>)

end
