(* ===== verification/Creation.thy ===== *)
theory Creation
  imports ScaleUp Answers
begin

text \<open>
  The contract between \<open>createNode\<close> and the Kamatera client, as an interface: what the two calls of
  a creation give, and what they send. \<open>httpClient\<close> is shown to keep it, and what creating a node
  does follows from the contract alone.
\<close>

section \<open>The contract\<close>

text \<open>A server that the client reports has the name that was asked for. The flag stands for what the
  provider needs of its environment.\<close>

locale creation_service =
  fixes K :: "'s kam_client"
    and sound :: bool
  assumes recovered_name: "sound \<Longrightarrow> kam_CreateServer K req s = Some (Inl e, s') \<Longrightarrow>
      as_ErrCreateRecovered e = Some srv \<Longrightarrow> srv_Name srv = req_Name req"
    and provisioned_name: "sound \<Longrightarrow> kam_WaitProvision K cmd n t s = Some (Inr srv, s') \<Longrightarrow> n \<noteq> [] \<Longrightarrow>
      srv_Name srv = n"
begin

lemma created_name:
  assumes ok: "sound" and k: "c_kam c = K" and n: "n \<noteq> []" and r: "create_body c pool n s = Some (out, s')"
  shows "case out of ServerProvisioned srv \<Rightarrow> srv_Name srv = n | ServerRecovered srv \<Rightarrow> srv_Name srv = n | _ \<Rightarrow> True"
  using r recovered_name[OF ok] provisioned_name[OF ok _ n]
  by (auto simp: create_body_def k create_request_def split: sum.splits option.splits)

end

text \<open>The calls are metered: a creation is sent at most once, and all else is reading.\<close>

locale metered_service = creation_service +
  fixes metered :: bool
    and log :: "'s \<Rightarrow> 'x list"
    and request_for :: "create_server_request \<Rightarrow> 'x \<Rightarrow> bool"
    and creation reading :: "'x \<Rightarrow> bool"
  assumes create_meter: "metered \<Longrightarrow> kam_CreateServer K req s = Some (r, s') \<Longrightarrow>
      \<exists>xs. log s' = log s @ xs \<and> length (filter creation xs) \<le> 1
        \<and> list_all (\<lambda>x. request_for req x \<or> reading x) xs"
    and wait_meter: "metered \<Longrightarrow> kam_WaitProvision K cmd n t s = Some (r', s') \<Longrightarrow>
      \<exists>xs. log s' = log s @ xs \<and> list_all reading xs"
    and reading_creates_nothing: "reading x \<Longrightarrow> \<not> creation x"
begin

lemma no_creations: "list_all reading xs \<Longrightarrow> filter creation xs = []"
  by (induction xs) (auto dest: reading_creates_nothing)

lemma creation_metered:
  assumes m: "metered" and k: "c_kam c = K" and r: "create_body c pool n s = Some (out, s')"
  shows "\<exists>xs ci. log s' = log s @ xs \<and> length (filter creation xs) \<le> 1
    \<and> list_all (\<lambda>x. request_for (create_request (c_cfg c) pool n ci) x \<or> reading x) xs"
proof (cases "renderCloudInit (c_cfg c) pool (JoinToken (cfg_Creds (c_cfg c)))")
  case (Inl err)
  then have "s' = s" using r by (simp add: create_body_def)
  then show ?thesis by (intro exI[of _ "[]"]) simp
next
  case (Inr ci)
  note ci = this
  let ?req = "create_request (c_cfg c) pool n ci"
  obtain x s1 where cr: "kam_CreateServer K ?req s = Some (x, s1)"
    using r ci k by (auto simp: create_body_def split: option.splits)
  from create_meter[OF m cr] obtain xs where xs: "log s1 = log s @ xs" "length (filter creation xs) \<le> 1"
    "list_all (\<lambda>x. request_for ?req x \<or> reading x) xs" by blast
  have "\<exists>ys. log s' = log s1 @ ys \<and> list_all reading ys"
  proof (cases x)
    case (Inl err)
    then have "s' = s1" using r ci cr k by (auto simp: create_body_def split: option.splits)
    then show ?thesis by (intro exI[of _ "[]"]) simp
  next
    case (Inr cmd)
    then obtain y where "kam_WaitProvision K cmd n (c_nodeReadyTimeout c) s1 = Some (y, s')"
      using r ci cr k by (auto simp: create_body_def split: option.splits sum.splits)
    then show ?thesis by (rule wait_meter[OF m])
  qed
  then obtain ys where ys: "log s' = log s1 @ ys" "list_all reading ys" by blast
  show ?thesis
    using xs ys no_creations[OF ys(2)]
    by (intro exI[of _ "xs @ ys"] exI[of _ ci]) (auto simp: list_all_iff)
qed

end

section \<open>The client keeps the contract\<close>

definition is_creation :: "http_client \<Rightarrow> exchange \<Rightarrow> bool" where
  "is_creation hc x = (rq_Method (fst x) = ''POST'' \<and> rq_URL (fst x) = hc_baseURL hc @ ''/service/server'')"

lemma url_ends: "a @ ''/authenticate'' \<noteq> b @ ''/service/server''"
proof
  assume "a @ ''/authenticate'' = b @ ''/service/server''"
  then have "last (a @ ''/authenticate'') = last (b @ ''/service/server'')" by simp
  then show False by simp
qed

lemma watch_not_creation: "watch_exchange con x \<Longrightarrow> \<not> is_creation hc x"
  by (auto simp: watch_exchange_def console_exchange_def is_creation_def url_ends)

text \<open>A cancelled wait leaves a context with an error, and neither that nor a malformed URL is itself
  a recovery.\<close>

definition sound_net :: "('w, 'z) net_scheme \<Rightarrow> bool" where
  "sound_net net =
     (ctx_consistent net
      \<and> (\<forall>u e. net_ParseURL net u = Some e \<longrightarrow> as_ErrCreateRecovered e = None)
      \<and> (\<forall>d w e w'. rt_wait net d w = (Some e, w') \<longrightarrow> as_ErrCreateRecovered e = None))"

lemma CreateServer_meter:
  assumes L: "logs_exchanges log net" and cr: "CreateServer net hc con req (tc, w) = Some (x, tc1, w1)"
  shows "\<exists>xs. log w1 = log w @ xs \<and> length (filter (is_creation hc) xs) \<le> 1
    \<and> list_all (\<lambda>x. fst x = create_exchange hc req \<or> watch_exchange con x) xs"
proof -
  from CreateServer_log[OF L cr] obtain rs ys where
    l: "log w1 = log w @ map (Pair (create_exchange hc req)) rs @ ys" "length rs \<le> 1"
      "list_all (console_exchange con ''/servers'') ys"
    by blast
  have ys: "list_all (watch_exchange con) ys" using l(3) by (auto simp: list_all_iff watch_exchange_def)
  then have "filter (is_creation hc) ys = []" by (induction ys) (auto dest: watch_not_creation)
  then have "length (filter (is_creation hc) (map (Pair (create_exchange hc req)) rs @ ys)) \<le> 1"
    using l(2) by (simp add: le_trans[OF length_filter_le])
  then show ?thesis using l(1) ys
    by (intro exI[of _ "map (Pair (create_exchange hc req)) rs @ ys"]) (auto simp: list_all_iff)
qed

lemma recovered_by_client:
  assumes N: "sound_net net" and c: "kam_CreateServer (httpClient_as_Client net (hc, con)) req s = Some (Inl e, s')"
    and e: "as_ErrCreateRecovered e = Some srv"
  shows "srv_Name srv = req_Name req"
proof -
  have run: "CreateServer net hc con req (fst s, snd s) = Some (Inl e, fst s', snd s')"
    using c by (simp add: httpClient_as_Client_def)
  have ctx: "ctx_consistent net"
    and url: "\<And>u e. net_ParseURL net u = Some e \<Longrightarrow> as_ErrCreateRecovered e = None"
    and wt: "\<And>d w e w'. rt_wait net d w = (Some e, w') \<Longrightarrow> as_ErrCreateRecovered e = None"
    using N unfolding sound_net_def by blast+
  show ?thesis by (rule CreateServer_recovered[OF ctx run e url wt])
qed

interpretation cs: metered_service "httpClient_as_Client net (hc, con)" "sound_net net"
  "logs_exchanges log net" "\<lambda>s. log (snd s)" "\<lambda>req x. fst x = create_exchange hc req"
  "is_creation hc" "watch_exchange con" for net hc con log
proof unfold_locales
  fix req s e s' srv
  assume "sound_net net" "kam_CreateServer (httpClient_as_Client net (hc, con)) req s = Some (Inl e, s')"
    "as_ErrCreateRecovered e = Some srv"
  then show "srv_Name srv = req_Name req" by (rule recovered_by_client)
next
  fix cmd n t s srv s'
  assume "kam_WaitProvision (httpClient_as_Client net (hc, con)) cmd n t s = Some (Inr srv, s')" "n \<noteq> []"
  then show "srv_Name srv = n"
    by (cases s') (auto simp: httpClient_as_Client_def intro: WaitProvision_name)
next
  fix req s r s'
  assume "logs_exchanges log net" "kam_CreateServer (httpClient_as_Client net (hc, con)) req s = Some (r, s')"
  then show "\<exists>xs. log (snd s') = log (snd s) @ xs \<and> length (filter (is_creation hc) xs) \<le> 1
      \<and> list_all (\<lambda>x. fst x = create_exchange hc req \<or> watch_exchange con x) xs"
    by (cases s; cases s') (auto simp: httpClient_as_Client_def dest: CreateServer_meter)
next
  fix cmd n t s r' s'
  assume "logs_exchanges log net"
    "kam_WaitProvision (httpClient_as_Client net (hc, con)) cmd n t s = Some (r', s')"
  then have "watched log con s s'"
    by (cases s; cases s') (auto simp: httpClient_as_Client_def intro: WaitProvision_log)
  then show "\<exists>xs. log (snd s') = log (snd s) @ xs \<and> list_all (watch_exchange con) xs"
    by (cases s; cases s') (auto simp: watched_def)
qed (rule watch_not_creation)

end
