(* ===== verification/Program.thy ===== *)
theory Program
  imports Entrypoint LoopProps Wire Creation Traces
begin

text \<open>
  The composition: the controller over the real clients, what of it the properties of the whole
  program need, and a small process on which their witnesses run it.
\<close>

section \<open>Everything returns\<close>

lemma NewClient_poll [simp]: "hc_pollInterval (fst (NewClient creds [])) = 15 * second"
  by (simp add: NewClient_def Let_def)

lemma wire_controller_parts:
  "c_rt (fst (wire_controller ps cfg kc)) = ps_runtime ps"
  "c_pods (fst (wire_controller ps cfg kc)) = Client_as_PodLister (ps_kube_api ps kc)"
  "c_mut (fst (wire_controller ps cfg kc)) = Client_as_NodeMutator (ps_kube_api ps kc)"
  "c_kam (fst (wire_controller ps cfg kc)) = httpClient_as_Client (ps_net ps) (NewClient (cfg_Creds cfg) [])"
  "c_cfg (fst (wire_controller ps cfg kc)) = cfg"
  by (simp_all add: wire_controller_def New_def Let_def)

text \<open>The controller that \<open>main\<close> makes runs over the Kubernetes client.\<close>

lemma wired_over_client: "over_client (ps_kube_api ps kc) (fst (wire_controller ps cfg kc))"
  by (simp add: over_client_def wire_controller_def New_def Let_def)

text \<open>The methods of the Kubernetes client keep the time that the calls below keep.\<close>

lemma client_keeps_time:
  "(\<And>ns sel. keeps_time clk (api_ListPods K ns sel)) \<Longrightarrow>
     keeps_time clk (ListPodsOnNode (Client_as_PodLister K) n)"
  "(\<And>ns nm. keeps_time clk (api_EvictV1 K ns nm)) \<Longrightarrow> keeps_time clk (Evict (Client_as_NodeMutator K) p)"
  unfolding keeps_time_def Client_as_PodLister_def Client_as_NodeMutator_def
  by (auto simp: Client_ListPodsOnNode_def Client_Evict_def split: prod.splits sum.splits option.splits)
    (metis snd_conv)+

lemma wired_run_returns:
  assumes T: "net_keeps_time clk (ps_net ps)" and C: "clock_progress (clk \<circ> snd) (ps_runtime ps)"
    and pods: "\<And>kc ns sel. keeps_time (clk \<circ> snd) (api_ListPods (ps_kube_api ps kc) ns sel)"
    and evict: "\<And>kc ns nm. keeps_time (clk \<circ> snd) (api_EvictV1 (ps_kube_api ps kc) ns nm)"
  shows "\<exists>x. Run (fst (wire_controller ps cfg kc)) enum evs s = Some x"
proof -
  have "0 < hc_pollInterval (fst (NewClient (cfg_Creds cfg) []))" by (simp add: second_def)
  then have "kam_WaitTerminate (httpClient_as_Client (ps_net ps) (NewClient (cfg_Creds cfg) [])) cmd t w \<noteq> None" for cmd t w
    unfolding httpClient_as_Client_def using WaitTerminate_returns[OF T] by simp
  then show ?thesis
    using ticks_return[where c = "fst (wire_controller ps cfg kc)" and clk = "clk \<circ> snd",
        unfolded wire_controller_parts, OF C client_keeps_time(1)[OF pods] client_keeps_time(2)[OF evict]]
    by blast
qed

section \<open>A small process\<close>

text \<open>A cluster of no nodes with one pending pod, over the scripted network.\<close>

definition demo_loader2 :: loader where
  "demo_loader2 =
     \<lparr>os_ReadFile = (\<lambda>p. Inr p), yaml_Documents = (\<lambda>raw. []),
      yaml_DecodeStrict = (\<lambda>raw. Inr ((sample_config 0 1)\<lparr>cfg_CloudInit := None\<rparr>)),
      labels_Parse = (\<lambda>s. Inr (\<lambda>ls. map_of ls ''pool'' = Some ''app'')),
      template_Parse = (\<lambda>t. Inr (\<lambda>v. Inr (ci_JoinToken v)))\<rparr>"

definition demo_kube :: "(token_cache \<times> wire) kube_api" where
  "demo_kube =
     \<lparr>api_ListPods = (\<lambda>ns sel s. (Inr [sample_pending ''p1''], s)), api_ListNodes = (\<lambda>s. (Inr [], s)),
      api_PatchNode = (\<lambda>n t p s. (None, s)), api_EvictV1 = (\<lambda>ns nm s. (None, s)),
      api_DeleteNode = (\<lambda>n s. (None, s))\<rparr>"

definition demo_runtime :: "(token_cache \<times> wire) up_runtime" where
  "demo_runtime =
     \<lparr>rt_now = (\<lambda>(tc, w). (wr_clock w, tc, w)),
      rt_wait = (\<lambda>d (tc, w). (None, tc, w\<lparr>wr_clock := wr_clock w + max 0 d\<rparr>)),
      rt_ctx_err = (\<lambda>s. None), up_rand = (\<lambda>s. ((0, 0, 0), s)), up_finished = (\<lambda>s. ([], s))\<rparr>"

definition demo_process :: "string list \<Rightarrow> (unit, unit, wire) process" where
  "demo_process args =
     \<lparr>ps_args = args, ps_getenv = (\<lambda>k. if k \<in> set required_env then k else []), ps_loader = demo_loader2,
      ps_creds_order = required_env,
      ps_rest = \<lparr>rest_InClusterConfig = Inr (), env_KUBECONFIG = [], env_UserHomeDir = [],
        BuildConfigFromFlags = (\<lambda>p. Inr ()), NewForConfig = (\<lambda>r. Inr ())\<rparr>,
      ps_kube_api = (\<lambda>kc. demo_kube), ps_api_errors = sim_errors, ps_net = wire_net,
      ps_runtime = demo_runtime, ps_enum = (\<lambda>m. m)\<rparr>"

lemma demo_times:
  "net_keeps_time wr_clock (ps_net (demo_process args))"
  "clock_progress (wr_clock \<circ> snd) (ps_runtime (demo_process args))"
  "keeps_time (wr_clock \<circ> snd) (api_ListPods (ps_kube_api (demo_process args) kc) ns sel)"
  "keeps_time (wr_clock \<circ> snd) (api_EvictV1 (ps_kube_api (demo_process args) kc) ns2 nm)"
  using wire_time
  by (auto simp: demo_process_def clock_progress_def keeps_time_def demo_runtime_def demo_kube_def)

definition demo_start :: "token_cache \<times> wire" where
  "demo_start = (no_token, answers [])"

lemma demo_run:
  "case main_run (demo_process []) [DownTick, CtxDone] demo_start of
     None \<Rightarrow> False
   | Some out \<Rightarrow> (case out of
       RunReturned as st s \<Rightarrow> length as = 3 \<and> map fst (tr_entries (st_creating st)) = [''app-0-000000'']
     | _ \<Rightarrow> False)"
  by code_simp

end
