(* ===== verification/Spec2Isabelle.thy ===== *)
theory Spec2Isabelle
  imports ConfigProps KamateraProps Answers Demand Runs Traces Program
begin

text \<open>
  Verification of the Kamatera cluster autoscaler, a Kubernetes controller in Go that creates
  virtual machines for pods that cannot be scheduled and terminates idle ones.

  \<^bold>\<open>The program.\<close> \<open>cmd/autoscaler/main.go\<close> loads the configuration (\<open>internal/config\<close>), makes a
  Kubernetes client (\<open>internal/kubeclient\<close>) and a Kamatera client (\<open>internal/kamatera\<close>) and runs the
  controller (\<open>internal/controller\<close>) until a signal. The controller is one loop with two kinds of
  ticks. A scale-up tick counts the pending pods of each pool, takes off what is in flight, and
  starts a goroutine per node to create; the tracker of creations in flight links the ticks. A
  scale-down tick drains an idle node, terminates its server and deletes the node object. The
  Kamatera client sends the creation once and, when its answer is lost, looks for the server by
  name; commands are awaited through one poller that all callers share.

  \<^bold>\<open>How the code is modelled.\<close> Everything outside the program is a state of type \<open>'w\<close> that the
  operations thread through; what is asked of it (clock, waits, HTTP, client-go) are fields of
  records of functions, and theorems name what they assume of them: \<open>clock_progress\<close>,
  \<open>keeps_time\<close>, \<open>net_keeps_time\<close> (time does not run backwards and waits take as long as asked),
  \<open>logs_exchanges\<close> (a log of the requests sent), \<open>ctx_consistent\<close>. An error is a value of \<open>goerr\<close>
  with its wrapping, a fallible result a sum, a call that may not return an option. Go maps are
  association lists; where the order of \<open>range\<close> matters it is a parameter. Times are integers in
  nanoseconds, with the 64-bit wrap-around written out where the code multiplies, adds or
  subtracts (\<open>wrap64\<close>, \<open>time_sub\<close>). A loop without a bound of its own is \<open>poll\<close>, a partial function;
  that it returns is proved with a number of rounds computed from the deadline.

  \<^bold>\<open>Theories, in the order of the code.\<close>
    \<^item> \<open>Prelude\<close>: maps, strings, numbers, time, reachable states (locale \<open>invariant_system\<close>), polling.
    \<^item> \<open>Types\<close>, \<open>Errors\<close>, \<open>Interfaces\<close>: the data of both APIs, \<open>errors.go\<close> with the locale \<open>error_classes\<close>,
      and the interfaces of \<open>kubeclient.go\<close> and \<open>client.go\<close> as records.
    \<^item> \<open>Config\<close>: \<open>config.go\<close> and \<open>reserved.go\<close>; validation equals \<open>valid_config\<close>, the scan for reserved keys
      equals \<open>key_in\<close>, and the locale \<open>pool_directory\<close> says what a lookup by name gives.
    \<^item> \<open>Pending\<close>: \<open>pending.go\<close>, which implements a map of live names (\<open>live\<close>).
    \<^item> \<open>PoolMatch\<close>, \<open>ScaleUp\<close>, \<open>Drain\<close>, \<open>ScaleDown\<close>, \<open>ControllerTypes\<close>, \<open>Controller\<close>: the files of
      \<open>internal/controller\<close>, one operation after the other. The goroutines of \<open>createNode\<close> return
      between the operations of a tick (\<open>up_finished\<close>, \<open>settle\<close>).
    \<^item> \<open>Kubeclient\<close>: \<open>kubeclient.go\<close> over \<open>kube_api\<close>, the calls of client-go.
    \<^item> \<open>Json\<close>, \<open>JsonFacts\<close>: \<open>encoding/json\<close> as far as the clients use it, as a parser and a printer, and
      that parsing what was printed gives it back. The parser has fuel \<open>2 * length + 1\<close> and the depth
      limit of 10000 of the library; \<open>JsonFuel\<close> shows that more fuel gives the same result on every
      text (\<open>parse_json_fuel\<close>), so a text is refused for its grammar only.
    \<^item> \<open>Http\<close>, \<open>Console\<close>, \<open>Client\<close>: \<open>console_client.go\<close> with its token cache, which other goroutines may
      change between two uses (\<open>net_others\<close>), and \<open>client.go\<close>. \<open>Traffic\<close> says what each operation
      sends, \<open>Recovery\<close> what the search by name sends, returns and takes.
    \<^item> \<open>Watcher\<close>: \<open>watcher.go\<close> as a transition system. A step is what happens under the mutex, one batch
      of calls, a wait that begins or ends, or the passing of time; \<open>watcher_inv\<close> is its invariant.
      \<open>Ticks\<close> gives the specification \<open>command_outcome\<close> of the answer to one command and shows that a
      tick implements it. \<open>Poller\<close> bounds the steps to an answer. \<open>Listings\<close> says what a decoded queue
      can contain, \<open>Answers\<close> that every result received was read off a listing of a tick.
    \<^item> \<open>CloudClient\<close>: the client as the controller holds it. A wait is its rounds with the poller, when
      no other caller waits, and \<open>wait_reaches\<close> shows it to be a run of the watcher.
    \<^item> \<open>Logging\<close>, \<open>Entrypoint\<close>, \<open>Program\<close>: \<open>logging.go\<close>, \<open>main.go\<close>, and what the composition needs.
    \<^item> \<open>Demand\<close>: with a generator of fresh names (\<open>fresh_names\<close>) a tick starts as many creations as the
      counts say. \<open>Fleet\<close>: the control loop and the cluster as one transition system, \<open>fleet_step\<close>,
      whose steps are ticks, creations that return, and nodes that join and leave; its invariant
      \<open>fleet_inv\<close> bounds each pool over a whole run. \<open>Runs\<close> embeds \<open>Run\<close> into it: what the system
      assumes of joining nodes becomes a condition evaluated along the run (\<open>run_joins\<close>).
    \<^item> \<open>Traces\<close>: the calls of the control loop over the Kubernetes client, with their outcomes, as a log; the
      inductive relations \<open>drain_rounds\<close>, \<open>termination_trace\<close>, \<open>node_trace\<close> and \<open>action_trace\<close> specify the
      sequences of calls that each outcome of a node and of a tick allows; \<open>wired_over_client\<close> says
      that \<open>main\<close> runs such a controller. \<open>Creation\<close>: the contract of \<open>createNode\<close> with the
      Kamatera client, as the locales \<open>creation_service\<close> and \<open>metered_service\<close>, which \<open>httpClient\<close> keeps.
    \<^item> \<open>Samples\<close>, \<open>Wire\<close>: a simulated cluster and a scripted network, for witnesses only.
    \<^item> \<open>ControllerProps\<close>, \<open>LoopProps\<close>, \<open>ConfigProps\<close>, \<open>KamateraProps\<close>, \<open>WatcherProps\<close> and this theory:
      the properties, with the runs that show where the code does not do what it means to.

  \<^bold>\<open>What the properties show.\<close> A tick keeps a pool between its bounds as far as the tick can see, meets
  the demand, and acts on demand and on idle nodes only; every tick makes its calls in one order, and
  no others; over a whole run the maximum is kept where every node joins while its
  creation is tracked; a creation is requested once, end to end; drains,
  ticks, waits, creations and the whole program return; the watcher has one poller, sends each
  caller one result, which a listing of one of its ticks gave, loses no wait but in one race, and
  answers late commands; a creation reports its own server; configurations
  load exactly when they are valid; request bodies arrive as meant; secrets under the keys of
  the list are not logged. Closed runs show a creation that is forgotten, not yet
  counted or counted too late, a pool that is emptied, and the race of \<open>cancel\<close>.

  \<^bold>\<open>Not modelled.\<close> The text of log lines and of the usage; the texts of the errors of \<open>encoding/json\<close>;
  \<open>WithHTTPClient\<close> and \<open>WithLogger\<close> (the HTTP client is a parameter and log lines are left out);
  the contents of contexts beyond that they end; the intervals of the controller's tickers, whose
  ticks come in any order; \<open>WithQueuePollInterval\<close> with an interval that is not positive, for which
  \<open>time.NewTicker\<close> panics. YAML, label selectors, \<open>text/template\<close>, client-go and \<open>apierrors\<close> are code
  outside the repository and parameters. Build files and deployment examples hold no logic.
\<close>

section \<open>The whole program\<close>

text \<open>
  C13. However many calls it takes: creating a node over the real clients sends the request to
  create a server at most once; everything it sends is that request, for this node and pool,
  or belongs to the console's two listings.
\<close>

theorem createNode_posts_once:
  assumes "logs_exchanges log net" and "c_kam c = httpClient_as_Client net (hc, con)"
    and "createNode c pool n (tr, tc, w) = Some (out, tr', tc', w')"
  shows "\<exists>xs ci. log w' = log w @ xs \<and> length (filter (is_creation hc) xs) \<le> 1
    \<and> list_all (\<lambda>x. fst x = create_exchange hc (create_request (c_cfg c) pool n ci) \<or> watch_exchange con x) xs"
proof -
  have "create_body c pool n (tc, w) = Some (out, tc', w')"
    using assms(3) by (auto simp: createNode_def split: option.splits)
  from cs.creation_metered[OF assms(1,2) this] show ?thesis by simp
qed

definition demo_controller :: "(token_cache \<times> wire) controller" where
  "demo_controller = fst (wire_controller (demo_process []) (sample_config 0 1) ())"

definition provisioned :: wire where
  "provisioned = answers
     [answer 200 ''[7]'', answer 200 ''{\"authentication\":\"t\",\"expires\":9999}'',
      answer 200 ''[{\"id\":7,\"status\":\"progress\"}]'', answer 200 ''[{\"id\":7,\"status\":\"complete\"}]'',
      answer 200 ''[{\"id\":\"x\",\"name\":\"n\"}]'']"

lemma provisioned_run:
  "case createNode demo_controller (sample_pool 0 1) ''n'' (NewPendingTracker 5, no_token, provisioned) of
     None \<Rightarrow> False
   | Some (out, tr, tc, w) \<Rightarrow> (case out of ServerProvisioned s \<Rightarrow> srv_ID s = ''x'' | _ \<Rightarrow> False)
       \<and> map (rq_Method \<circ> fst) (wr_log w) = [''POST'', ''POST'', ''GET'', ''GET'', ''GET''] \<and> wr_clock w = 15 * second"
  by code_simp

theorem createNode_posts_once_witness:
  "\<exists>out tr tc w. createNode demo_controller (sample_pool 0 1) ''n'' (NewPendingTracker 5, no_token, provisioned)
       = Some (out, tr, tc, w)
     \<and> length (wr_log w) = 5 \<and> length (filter (is_creation (fst (NewClient sample_creds []))) (wr_log w)) \<le> 1"
proof -
  obtain out tr tc w where r: "createNode demo_controller (sample_pool 0 1) ''n'' (NewPendingTracker 5, no_token, provisioned)
      = Some (out, tr, tc, w)" and m: "map (rq_Method \<circ> fst) (wr_log w) = [''POST'', ''POST'', ''GET'', ''GET'', ''GET'']"
    using provisioned_run by (auto split: option.splits prod.splits)
  have k: "c_kam demo_controller = httpClient_as_Client wire_net (fst (NewClient sample_creds []), snd (NewClient sample_creds []))"
    unfolding demo_controller_def wire_controller_parts by (simp add: demo_process_def sample_config_def)
  have "length (wr_log w) = 5" using m[THEN arg_cong[where f = length]] by simp
  moreover have "wr_log provisioned = []" by (simp add: provisioned_def answers_def)
  ultimately show ?thesis using createNode_posts_once[OF wire_logs k r] r by fastforce
qed

text \<open>
  C14. What creating a node reports over the real clients is about its own server: the server that it
  says was provisioned, or recovered after a lost answer, has the name of the node. However it
  ends, the node has left the tracker, and no other name has. (A cancelled wait leaves a context
  with an error, and neither that nor a malformed URL is itself a recovery.)
\<close>

theorem created_server_is_ours:
  assumes "ctx_consistent net" and "c_kam c = httpClient_as_Client net (hc, con)" and "n \<noteq> []"
    and "createNode c pool n (tr, tc, w) = Some (out, tr', tc', w')"
    and "\<And>u e. net_ParseURL net u = Some e \<Longrightarrow> as_ErrCreateRecovered e = None"
    and "\<And>d w e w'. rt_wait net d w = (Some e, w') \<Longrightarrow> as_ErrCreateRecovered e = None"
  shows "(case out of ServerProvisioned srv \<Rightarrow> srv_Name srv = n | ServerRecovered srv \<Rightarrow> srv_Name srv = n | _ \<Rightarrow> True)
    \<and> map_of (tr_entries tr') = (map_of (tr_entries tr))(n := None)"
proof -
  have b: "create_body c pool n (tc, w) = Some (out, tc', w')" and tr': "tr' = Remove n tr"
    using assms(4) by (auto simp: createNode_def split: option.splits)
  have "sound_net net" using assms(1,5,6) by (auto simp: sound_net_def)
  from cs.created_name[OF this assms(2,3) b] show ?thesis
    using tr' by (simp add: Remove_def delete_conv')
qed

theorem created_server_is_ours_witness:
  "\<exists>srv tr tc w. createNode demo_controller (sample_pool 0 1) ''n'' (NewPendingTracker 5, no_token, provisioned)
       = Some (ServerProvisioned srv, tr, tc, w) \<and> srv_Name srv = ''n''"
proof -
  obtain srv tr tc w where r: "createNode demo_controller (sample_pool 0 1) ''n'' (NewPendingTracker 5, no_token, provisioned)
      = Some (ServerProvisioned srv, tr, tc, w)"
    using provisioned_run by (auto split: option.splits prod.splits create_outcome.splits)
  have k: "c_kam demo_controller = httpClient_as_Client wire_net (fst (NewClient sample_creds []), snd (NewClient sample_creds []))"
    unfolding demo_controller_def wire_controller_parts by (simp add: demo_process_def sample_config_def)
  have "net_ParseURL wire_net u \<noteq> Some e" "rt_wait wire_net d v \<noteq> (Some e, v')" for u e d v v'
    by (simp_all add: wire_defs)
  with created_server_is_ours[OF wire_ctx k _ r] r show ?thesis by auto
qed




lemma demo_loads:
  "\<not> isl (Load (ps_loader (demo_process [])) (config_path (ps_getenv (demo_process []))))"
  "\<not> isl (NewInClusterOrKubeconfig (ps_rest (demo_process [])))"
  by code_simp+


section \<open>A run that goes wrong\<close>

text \<open>The answer to the creation is lost, and the list of servers shows the server late.\<close>

definition slow_recovery :: wire where
  "slow_recovery = answers
     ([Inl ''EOF'', answer 200 ''{\"authentication\":\"t\",\"expires\":9999}'']
      @ replicate 20 (answer 200 ''[]'') @ [answer 200 ''[{\"name\":\"n\"}]''])"

definition registered :: tracker where
  "registered = snd (Add 0 0 ''app'' ''n'' (NewPendingTracker (c_nodeReadyTimeout demo_controller)))"


end
